theory Spec2Isabelle
  imports Main "HOL-Library.Sublist" "HOL-Library.AList"
begin

section \<open>States, symbols and errors\<close>

text \<open>
  A \<open>State\<close> object carries a label and is compared by that label. Symbols are
  Python strings: a letter of the alphabet is a string, and the empty string \<open>''''\<close>
  is the label of an \<open>\<epsilon>\<close>-transition of the NFA. Iterating over a Python string
  yields its characters as one-character strings, written \<open>[c]\<close> here.

  The exceptions the modelled code can raise are values of \<open>error\<close>; a function
  that can raise returns \<open>error + 'a\<close> with \<open>Inl\<close> for the exception.
\<close>

datatype state = State (name: string)

datatype error = ValueError | KeyError | StopIteration | IndexError | TypeError

section \<open>The deterministic automaton (automaton.py)\<close>

text \<open>
  The fields of \<open>Automaton\<close>. \<open>_alphabet\<close> is a Python set that \<open>minimize\<close>
  iterates over, so it is a list whose order is the iteration order; membership is
  membership in \<open>set (alphabet D)\<close>. \<open>_transitions\<close> is a
  \<open>defaultdict(OrderedDict)\<close>: a dictionary of dictionaries, where reading a
  missing outer key inserts an empty inner dictionary.
\<close>

record automaton =
  start_state :: state
  alphabet :: "string list"
  states :: "state set"
  accept_states :: "state set"
  reject_states :: "state set"
  transitions :: "state \<rightharpoonup> (string \<rightharpoonup> state)"

text \<open>\<open>Automaton.__init__(alphabet, start_state)\<close>.\<close>

definition Automaton :: "string list \<Rightarrow> state \<Rightarrow> automaton" where
  "Automaton sigma q0 =
     \<lparr>start_state = q0, alphabet = sigma, states = {q0}, accept_states = {},
      reject_states = {}, transitions = Map.empty\<rparr>"

text \<open>
  \<open>d[k]\<close> on a \<open>defaultdict(OrderedDict)\<close>: the value stored under \<open>k\<close>, or,
  when \<open>k\<close> is missing, a new empty dictionary that is stored under \<open>k\<close> first.
  The dictionary after the read is returned with the value.
\<close>

definition getitem_default ::
  "('k \<rightharpoonup> ('a \<rightharpoonup> 'b)) \<Rightarrow> 'k \<Rightarrow> ('a \<rightharpoonup> 'b) \<times> ('k \<rightharpoonup> ('a \<rightharpoonup> 'b))" where
  "getitem_default d k =
     (case d k of
        Some v \<Rightarrow> (v, d)
      | None \<Rightarrow> (Map.empty, d(k \<mapsto> Map.empty)))"

text \<open>\<open>Automaton.add_transition(q1, q2, a)\<close>; the \<open>ValueError\<close> is the spec's AlphabetError.\<close>

definition add_transition :: "automaton \<Rightarrow> state \<Rightarrow> state \<Rightarrow> string \<Rightarrow> error + automaton" where
  "add_transition D q1 q2 a =
     (if a \<notin> set (alphabet D) then Inl ValueError
      else
        let D1 = D\<lparr>states := states D \<union> {q1, q2}\<rparr>;
            (m, tr) = getitem_default (transitions D1) q1
        in Inr (D1\<lparr>transitions := tr(q1 \<mapsto> m(a \<mapsto> q2))\<rparr>))"

text \<open>
  \<open>Automaton.transition(q1, a)\<close> is \<open>self._transitions[q1][a]\<close>: the outer read goes
  through the \<open>defaultdict\<close>, the inner read raises \<open>KeyError\<close> on a missing
  symbol. The automaton after the call is returned with the result.
\<close>

definition transition :: "automaton \<Rightarrow> state \<Rightarrow> string \<Rightarrow> (error + state) \<times> automaton" where
  "transition D q1 a =
     (let (m, tr) = getitem_default (transitions D) q1;
          D1 = D\<lparr>transitions := tr\<rparr>
      in (case m a of None \<Rightarrow> Inl KeyError | Some q2 \<Rightarrow> Inr q2, D1))"

text \<open>
  \<open>Automaton.transition_exists(q1, a)\<close>: a short-circuit conjunction of
  \<open>q1 in self._transitions\<close>, \<open>a in self._transitions[q1]\<close> and
  \<open>self._transitions[q1][a] in self.states\<close>.
\<close>

definition transition_exists :: "automaton \<Rightarrow> state \<Rightarrow> string \<Rightarrow> (error + bool) \<times> automaton" where
  "transition_exists D q1 a =
     (if q1 \<in> dom (transitions D) then
        let (m, tr) = getitem_default (transitions D) q1;
            D1 = D\<lparr>transitions := tr\<rparr>
        in if a \<in> dom m then
             (case transition D1 q1 a of
                (Inl e, D2) \<Rightarrow> (Inl e, D2)
              | (Inr q2, D2) \<Rightarrow> (Inr (q2 \<in> states D2), D2))
           else (Inr False, D1)
      else (Inr False, D))"

text \<open>
  \<open>Automaton.parse_string(s)\<close>: the loop over the letters of \<open>s\<close>, from the state
  \<open>q\<close>, threading the automaton through every call.
\<close>

fun parse_from :: "automaton \<Rightarrow> state \<Rightarrow> string \<Rightarrow> (error + state \<times> bool) \<times> automaton" where
  "parse_from D q [] = (Inr (q, q \<in> accept_states D), D)"
| "parse_from D q (c # s) =
     (case transition_exists D q [c] of
        (Inl e, D1) \<Rightarrow> (Inl e, D1)
      | (Inr False, D1) \<Rightarrow> (Inr (q, False), D1)
      | (Inr True, D1) \<Rightarrow>
          (case transition D1 q [c] of
             (Inl e, D2) \<Rightarrow> (Inl e, D2)
           | (Inr q', D2) \<Rightarrow> parse_from D2 q' s))"

definition parse_string :: "automaton \<Rightarrow> string \<Rightarrow> (error + state \<times> bool) \<times> automaton" where
  "parse_string D s = parse_from D (start_state D) s"

text \<open>
  The transition function \<open>\<delta>\<close> as the parser sees it: \<open>\<delta>(q, a)\<close> is defined when
  \<open>transition_exists\<close> holds, that is, when the table has an entry for \<open>(q, a)\<close>
  whose target is a state of the automaton. \<open>lookup\<close> is the table entry alone.
\<close>

definition lookup :: "automaton \<Rightarrow> state \<Rightarrow> string \<Rightarrow> state option" where
  "lookup D q a = (case transitions D q of None \<Rightarrow> None | Some m \<Rightarrow> m a)"

definition delta :: "automaton \<Rightarrow> state \<Rightarrow> string \<Rightarrow> state option" where
  "delta D q a =
     (case lookup D q a of
        None \<Rightarrow> None
      | Some q' \<Rightarrow> if q' \<in> states D then Some q' else None)"

text \<open>The extended transition function: \<open>None\<close> as soon as one step is undefined.\<close>

fun delta_star :: "automaton \<Rightarrow> state \<Rightarrow> string \<Rightarrow> state option" where
  "delta_star D q [] = Some q"
| "delta_star D q (c # s) =
     (case delta D q [c] of None \<Rightarrow> None | Some q' \<Rightarrow> delta_star D q' s)"

subsection \<open>minimize\<close>

text \<open>
  The body of \<open>for a in self._alphabet\<close> in \<open>Automaton.minimize\<close>, for the popped
  \<open>state\<close>. The loop state is \<open>(self, minimized_dfa, stack, visited_states)\<close>; the
  stack is a Python list, pushed and popped at its end.
\<close>

fun minimize_for ::
  "state \<Rightarrow> string list \<Rightarrow> automaton \<times> automaton \<times> state list \<times> state set \<Rightarrow>
   error + automaton \<times> automaton \<times> state list \<times> state set" where
  "minimize_for state [] acc = Inr acc"
| "minimize_for state (a # as) (self, mdfa, stack, visited) =
     (if state \<in> dom (transitions self) then
        (let (m, tr) = getitem_default (transitions self) state;
             self1 = self\<lparr>transitions := tr\<rparr>
         in if a \<in> dom m then
              (case transition self1 state a of
                 (Inl e, self2) \<Rightarrow> Inl e
               | (Inr to_state, self2) \<Rightarrow>
                   (case add_transition mdfa state to_state a of
                      Inl e \<Rightarrow> Inl e
                    | Inr mdfa1 \<Rightarrow>
                        if to_state \<notin> visited
                        then minimize_for state as
                               (self2, mdfa1, stack @ [to_state], insert to_state visited)
                        else minimize_for state as (self2, mdfa1, stack, visited)))
            else minimize_for state as (self1, mdfa, stack, visited))
      else minimize_for state as (self, mdfa, stack, visited))"

text \<open>
  The \<open>while stack\<close> loop of \<open>minimize\<close>. The table of a model automaton may be
  infinite, so the loop is a partial function: \<open>None\<close> is a loop that never ends.
  It returns the minimized automaton.
\<close>

partial_function (option) minimize_while ::
  "automaton \<times> automaton \<times> state list \<times> state set \<Rightarrow> (error + automaton) option" where
  "minimize_while st =
     (case st of (self, mdfa, stack, visited) \<Rightarrow>
        if stack = [] then Some (Inr mdfa)
        else
          (let state = last stack;
               mdfa1 = mdfa\<lparr>states := insert state (states mdfa)\<rparr>
           in case minimize_for state (alphabet self) (self, mdfa1, butlast stack, visited) of
                Inl e \<Rightarrow> Some (Inl e)
              | Inr (self2, mdfa2, stack2, visited2) \<Rightarrow>
                  minimize_while
                    (self2,
                     if state \<in> accept_states self2
                     then mdfa2\<lparr>accept_states := insert state (accept_states mdfa2)\<rparr>
                     else if state \<in> reject_states self2
                     then mdfa2\<lparr>reject_states := insert state (reject_states mdfa2)\<rparr>
                     else mdfa2,
                     stack2, visited2)))"

text \<open>
  \<open>Automaton.minimize()\<close>: the new automaton is \<open>Automaton(self._alphabet)\<close>, whose
  start state is the constructor's default \<open>State('')\<close>, and the search starts from
  \<open>State('')\<close>.
\<close>

definition minimize :: "automaton \<Rightarrow> (error + automaton) option" where
  "minimize self =
     minimize_while (self, Automaton (alphabet self) (State []), [State []], {State []})"

subsection \<open>build_pta\<close>

text \<open>
  Modelled from the spec: \<open>utils.determine_alphabet\<close> and \<open>utils.prefix_set\<close> are
  not among the sources. The alphabet of a sample is the set of the letters that occur
  in it, each a one-character string; the prefix set is the set of all prefixes of its
  strings (the states of the prefix tree are all prefixes of the examples), the empty
  string and the strings themselves included. Python sets that are iterated over are
  lists without repetitions, in iteration order.
\<close>

definition determine_alphabet :: "string list \<Rightarrow> string list" where
  "determine_alphabet samples = remdups (map (\<lambda>c. [c]) (concat samples))"

definition prefix_set :: "string list \<Rightarrow> string list \<Rightarrow> string list" where
  "prefix_set samples sigma = remdups (concat (map prefixes samples))"

text \<open>\<open>for letter in alphabet: pta.add_transition(State(''), State(letter), letter)\<close>.\<close>

fun pta_letters :: "automaton \<Rightarrow> string list \<Rightarrow> error + automaton" where
  "pta_letters pta [] = Inr pta"
| "pta_letters pta (letter # ls) =
     (case add_transition pta (State []) (State letter) letter of
        Inl e \<Rightarrow> Inl e
      | Inr pta1 \<Rightarrow> pta_letters pta1 ls)"

text \<open>
  The inner loop \<open>for a in alphabet\<close> for a state \<open>u\<close>, and the outer loop
  \<open>for u in states\<close>; the loop state is \<open>(pta, new_states)\<close>, and \<open>sts\<close> is the
  set \<open>states\<close>, which the loops do not change.
\<close>

fun pta_inner ::
  "state list \<Rightarrow> state \<Rightarrow> string list \<Rightarrow> automaton \<times> state list \<Rightarrow>
   error + automaton \<times> state list" where
  "pta_inner sts u [] acc = Inr acc"
| "pta_inner sts u (a # as) (pta, new_states) =
     (let ua = State (name u @ a);
          new_states1 = (if ua \<notin> set sts then List.insert ua new_states else new_states)
      in case add_transition pta u ua a of
           Inl e \<Rightarrow> Inl e
         | Inr pta1 \<Rightarrow> pta_inner sts u as (pta1, new_states1))"

fun pta_outer ::
  "state list \<Rightarrow> string list \<Rightarrow> state list \<Rightarrow> automaton \<times> state list \<Rightarrow>
   error + automaton \<times> state list" where
  "pta_outer sts sigma [] acc = Inr acc"
| "pta_outer sts sigma (u # us) acc =
     (case pta_inner sts u sigma acc of
        Inl e \<Rightarrow> Inl e
      | Inr acc1 \<Rightarrow> pta_outer sts sigma us acc1)"

text \<open>The last loop: a state whose label is an example becomes accepting or rejecting.\<close>

fun pta_mark :: "string list \<Rightarrow> string list \<Rightarrow> state list \<Rightarrow> automaton \<Rightarrow> automaton" where
  "pta_mark s_plus s_minus [] pta = pta"
| "pta_mark s_plus s_minus (u # us) pta =
     (let pta1 = (if name u \<in> set s_plus
                  then pta\<lparr>accept_states := insert u (accept_states pta)\<rparr> else pta);
          pta2 = (if name u \<in> set s_minus
                  then pta1\<lparr>reject_states := insert u (reject_states pta1)\<rparr> else pta1)
      in pta_mark s_plus s_minus us pta2)"

text \<open>\<open>build_pta(s_plus, s_minus)\<close>.\<close>

definition build_pta :: "string list \<Rightarrow> string list \<Rightarrow> error + automaton" where
  "build_pta s_plus s_minus =
     (let samples = List.union s_plus s_minus;
          sigma = determine_alphabet samples;
          pta = Automaton sigma (State [])
      in case pta_letters pta sigma of
           Inl e \<Rightarrow> Inl e
         | Inr pta1 \<Rightarrow>
             (let sts = map State (prefix_set samples sigma)
              in case pta_outer sts sigma sts (pta1, []) of
                   Inl e \<Rightarrow> Inl e
                 | Inr (pta2, new_states) \<Rightarrow>
                     (let sts1 = List.union sts new_states;
                          pta3 = pta_mark s_plus s_minus sts1 pta2
                      in Inr (pta3\<lparr>states := set sts1\<rparr>))))"

text \<open>
  The specification's side of the prefix tree: the prefixes of the examples, and the
  letters that occur in them.
\<close>

definition sample_prefixes :: "string list \<Rightarrow> string list \<Rightarrow> string set" where
  "sample_prefixes s_plus s_minus = {p. \<exists>w \<in> set s_plus \<union> set s_minus. prefix p w}"

definition sample_letters :: "string list \<Rightarrow> string list \<Rightarrow> string set" where
  "sample_letters s_plus s_minus = {[c] | c. \<exists>w \<in> set s_plus \<union> set s_minus. c \<in> set w}"

section \<open>The non-deterministic automaton (nfa.py)\<close>

text \<open>
  The fields of \<open>NFA\<close>. Its Python sets are iterated over (\<open>parse_string\<close> loops
  over \<open>_start_states\<close>, \<open>_power_set\<close> over \<open>_states\<close>, the search over the
  target sets), so each is a list without repetitions whose order is the iteration
  order; what is proved about them is proved for every order. \<open>_transitions\<close> is a
  \<open>defaultdict(OrderedDict)\<close> from states to dictionaries from symbols to target
  sets; the inner dictionary is iterated in insertion order and is an association list.
\<close>

record nfa =
  nfa_alphabet :: "string list"
  nfa_start_states :: "state list"
  nfa_states :: "state list"
  nfa_accept_states :: "state list"
  nfa_transitions :: "state \<rightharpoonup> (string \<times> state list) list"

text \<open>\<open>NFA.__init__(alphabet)\<close>.\<close>

definition NFA :: "string list \<Rightarrow> nfa" where
  "NFA sigma =
     \<lparr>nfa_alphabet = sigma, nfa_start_states = [], nfa_states = [],
      nfa_accept_states = [], nfa_transitions = Map.empty\<rparr>"

text \<open>\<open>s.add(x)\<close> on a set.\<close>

definition set_add :: "'a \<Rightarrow> 'a list \<Rightarrow> 'a list" where
  "set_add x xs = (if x \<in> set xs then xs else xs @ [x])"

text \<open>
  The value of \<open>self._transitions[q]\<close>: the dictionary stored under \<open>q\<close>, or the
  empty one. The functions of the NFA that read the table return no automaton: the
  empty dictionary that the \<open>defaultdict\<close> stores on a missing key reads as the
  missing key does, so the values they return do not depend on it.
\<close>

definition nfa_getitem :: "nfa \<Rightarrow> state \<Rightarrow> (string \<times> state list) list" where
  "nfa_getitem N q = (case nfa_transitions N q of None \<Rightarrow> [] | Some m \<Rightarrow> m)"

text \<open>\<open>NFA.add_transition(q1, q2, a)\<close>.\<close>

definition nfa_add_transition :: "nfa \<Rightarrow> state \<Rightarrow> state \<Rightarrow> string \<Rightarrow> error + nfa" where
  "nfa_add_transition N q1 q2 a =
     (if a \<notin> set (nfa_alphabet N) \<and> a \<noteq> [] then Inl ValueError
      else
        let from_map = nfa_getitem N q1;
            from_map1 = (if a \<notin> fst ` set from_map then AList.update a [] from_map
                         else from_map)
        in case map_of from_map1 a of
             None \<Rightarrow> Inl KeyError
           | Some to_states \<Rightarrow>
               Inr (N\<lparr>nfa_transitions :=
                       (nfa_transitions N)(q1 \<mapsto> AList.update a (set_add q2 to_states) from_map1)\<rparr>))"

text \<open>\<open>add_state\<close>, \<open>add_accepting_state\<close>, \<open>add_start_state\<close>, \<open>get_states\<close>.\<close>

definition add_state :: "nfa \<Rightarrow> state \<Rightarrow> nfa" where
  "add_state N q = N\<lparr>nfa_states := set_add q (nfa_states N)\<rparr>"

definition add_accepting_state :: "nfa \<Rightarrow> state \<Rightarrow> nfa" where
  "add_accepting_state N q = N\<lparr>nfa_accept_states := set_add q (nfa_accept_states N)\<rparr>"

definition add_start_state :: "nfa \<Rightarrow> state \<Rightarrow> nfa" where
  "add_start_state N q =
     (let N1 = (if q \<notin> set (nfa_states N) then N\<lparr>nfa_states := set_add q (nfa_states N)\<rparr>
                else N)
      in N1\<lparr>nfa_start_states := set_add q (nfa_start_states N1)\<rparr>)"

definition get_states :: "nfa \<Rightarrow> state list" where
  "get_states N = nfa_states N"

subsection \<open>parse_string\<close>

text \<open>
  The two inner loops of \<open>NFA.parse_string\<close>: for one symbol of the popped state and
  each of its targets, and over the symbols of the state. \<open>s[index]\<close> raises
  \<open>IndexError\<close> past the end of \<open>s\<close>, and is read only when the symbol is not the
  empty string.
\<close>

fun push_targets ::
  "string \<Rightarrow> nat \<Rightarrow> string \<Rightarrow> state list \<Rightarrow> (state \<times> nat) list \<Rightarrow>
   error + (state \<times> nat) list" where
  "push_targets s index symbol [] stack = Inr stack"
| "push_targets s index symbol (to_state # rest) stack =
     (if symbol = [] then push_targets s index symbol rest (stack @ [(to_state, index)])
      else if length s \<le> index then Inl IndexError
      else if symbol = [s ! index]
      then push_targets s index symbol rest (stack @ [(to_state, index + 1)])
      else push_targets s index symbol rest stack)"

fun push_symbols ::
  "string \<Rightarrow> nat \<Rightarrow> (string \<times> state list) list \<Rightarrow> (state \<times> nat) list \<Rightarrow>
   error + (state \<times> nat) list" where
  "push_symbols s index [] stack = Inr stack"
| "push_symbols s index ((symbol, to_states) # rest) stack =
     (case push_targets s index symbol to_states stack of
        Inl e \<Rightarrow> Inl e
      | Inr stack1 \<Rightarrow> push_symbols s index rest stack1)"

text \<open>
  The \<open>while len(stack) > 0\<close> loop, for one start state: \<open>Inr (Some q)\<close> when it
  returns \<open>(q, True)\<close>, \<open>Inr None\<close> when the stack runs empty. The loop need not
  end (a cycle of \<open>\<epsilon>\<close>-transitions is pushed forever), so it is a partial function.
\<close>

partial_function (option) parse_while ::
  "nfa \<Rightarrow> string \<Rightarrow> (state \<times> nat) list \<Rightarrow> (error + state option) option" where
  "parse_while N s stack =
     (if stack = [] then Some (Inr None)
      else
        (case last stack of (state, index) \<Rightarrow>
           if index = length s then
             (if state \<in> set (nfa_accept_states N) then Some (Inr (Some state))
              else parse_while N s (butlast stack))
           else
             (case push_symbols s index (nfa_getitem N state) (butlast stack) of
                Inl e \<Rightarrow> Some (Inl e)
              | Inr stack1 \<Rightarrow> parse_while N s stack1)))"

text \<open>The loop \<open>for start_state in self._start_states\<close>.\<close>

fun parse_starts :: "nfa \<Rightarrow> string \<Rightarrow> state list \<Rightarrow> (error + state option) option" where
  "parse_starts N s [] = Some (Inr None)"
| "parse_starts N s (start # rest) =
     (case parse_while N s [(start, 0)] of
        None \<Rightarrow> None
      | Some (Inl e) \<Rightarrow> Some (Inl e)
      | Some (Inr (Some q)) \<Rightarrow> Some (Inr (Some q))
      | Some (Inr None) \<Rightarrow> parse_starts N s rest)"

text \<open>
  \<open>NFA.parse_string(s)\<close>. The last line is \<open>next(iter(self._start_states))\<close>, which
  raises \<open>StopIteration\<close> on the empty set and yields the first start state in
  iteration order otherwise.
\<close>

definition nfa_parse_string :: "nfa \<Rightarrow> string \<Rightarrow> (error + state \<times> bool) option" where
  "nfa_parse_string N s =
     (case parse_starts N s (nfa_start_states N) of
        None \<Rightarrow> None
      | Some (Inl e) \<Rightarrow> Some (Inl e)
      | Some (Inr (Some q)) \<Rightarrow> Some (Inr (q, True))
      | Some (Inr None) \<Rightarrow>
          (case nfa_start_states N of
             [] \<Rightarrow> Some (Inl StopIteration)
           | q # rest \<Rightarrow> Some (Inr (q, False))))"

text \<open>
  The runs of the \<open>\<epsilon>\<close>-NFA, in the words of the specification: a run from \<open>q\<close>
  consumes \<open>s\<close> and ends in \<open>r\<close>; an \<open>\<epsilon>\<close>-transition changes the state and
  consumes nothing. The NFA accepts \<open>s\<close> when some run from a start state consumes
  exactly \<open>s\<close> and ends in an accept state.
\<close>

definition targets :: "nfa \<Rightarrow> state \<Rightarrow> string \<Rightarrow> state set" where
  "targets N q a = (case map_of (nfa_getitem N q) a of None \<Rightarrow> {} | Some ts \<Rightarrow> set ts)"

inductive nfa_run :: "nfa \<Rightarrow> state \<Rightarrow> string \<Rightarrow> state \<Rightarrow> bool" for N :: nfa where
  run_done: "nfa_run N q [] q"
| run_eps: "q' \<in> targets N q [] \<Longrightarrow> nfa_run N q' s r \<Longrightarrow> nfa_run N q s r"
| run_sym: "q' \<in> targets N q [c] \<Longrightarrow> nfa_run N q' s r \<Longrightarrow> nfa_run N q (c # s) r"

definition accepting_run :: "nfa \<Rightarrow> string \<Rightarrow> bool" where
  "accepting_run N s =
     (\<exists>q0 r. q0 \<in> set (nfa_start_states N) \<and> r \<in> set (nfa_accept_states N) \<and> nfa_run N q0 s r)"

text \<open>
  A pair \<open>(q, i)\<close> of the work stack is reached from the start state \<open>q0\<close> when
  some run from \<open>q0\<close> consumes the first \<open>i\<close> letters of \<open>s\<close> and ends in \<open>q\<close>.
\<close>

definition reached :: "nfa \<Rightarrow> state \<Rightarrow> string \<Rightarrow> state \<times> nat \<Rightarrow> bool" where
  "reached N q0 s p = (snd p \<le> length s \<and> nfa_run N q0 (take (snd p) s) (fst p))"

subsection \<open>The \<open>\<epsilon>\<close>-closure\<close>

text \<open>
  \<open>NFA.transition(q1, a)\<close> is \<open>self._transitions[q1][a]\<close>: the inner dictionary is an
  \<open>OrderedDict\<close>, and reading a symbol it does not hold raises \<open>KeyError\<close>.
\<close>

definition nfa_transition :: "nfa \<Rightarrow> state \<Rightarrow> string \<Rightarrow> error + state list" where
  "nfa_transition N q1 a =
     (case map_of (nfa_getitem N q1) a of None \<Rightarrow> Inl KeyError | Some ts \<Rightarrow> Inr ts)"

text \<open>
  \<open>NFA._epsilon_closure(nfa, q)\<close>: the loop over the targets of one popped state,
  with the pair \<open>(closure_set, stack)\<close>, and the \<open>while\<close> loop around it.
\<close>

fun closure_for :: "state list \<Rightarrow> state list \<times> state list \<Rightarrow> state list \<times> state list" where
  "closure_for [] acc = acc"
| "closure_for (to_state # rest) (closure_set, stack) =
     (if to_state \<notin> set closure_set
      then closure_for rest (closure_set @ [to_state], stack @ [to_state])
      else closure_for rest (closure_set, stack))"

partial_function (option) closure_while ::
  "nfa \<Rightarrow> state list \<Rightarrow> state list \<Rightarrow> (error + state list) option" where
  "closure_while N closure_set stack =
     (if stack = [] then Some (Inr closure_set)
      else
        (case nfa_transition N (last stack) [] of
           Inl e \<Rightarrow> Some (Inl e)
         | Inr ts \<Rightarrow>
             (case closure_for ts (closure_set, butlast stack) of
                (closure_set1, stack1) \<Rightarrow> closure_while N closure_set1 stack1)))"

definition epsilon_closure :: "nfa \<Rightarrow> state \<Rightarrow> (error + state list) option" where
  "epsilon_closure N q = closure_while N [q] [q]"

text \<open>
  The states reachable from \<open>q\<close> by zero or more \<open>\<epsilon>\<close>-transitions, in the words of
  the specification.
\<close>

definition eps_reachable :: "nfa \<Rightarrow> state \<Rightarrow> state set" where
  "eps_reachable N q = {r. (q, r) \<in> {(p, p'). p' \<in> targets N p []}\<^sup>*}"

subsection \<open>to_dfa\<close>

text \<open>\<open>itertools.combinations(q, r)\<close> and \<open>NFA._power_set(q)\<close>, in their order.\<close>

fun combinations :: "'a list \<Rightarrow> nat \<Rightarrow> 'a list list" where
  "combinations xs 0 = [[]]"
| "combinations [] (Suc r) = []"
| "combinations (x # xs) (Suc r) = map ((#) x) (combinations xs r) @ combinations xs (Suc r)"

definition power_set :: "'a list \<Rightarrow> 'a list list" where
  "power_set q = concat (map (combinations q) [0..<length q + 1])"

text \<open>
  The loop \<open>for q in cpy._start_states: cpy.add_transition(new_q, q, '')\<close> of
  \<open>to_dfa\<close>.
\<close>

fun link_starts :: "nfa \<Rightarrow> state \<Rightarrow> state list \<Rightarrow> error + nfa" where
  "link_starts cpy new_q [] = Inr cpy"
| "link_starts cpy new_q (q # rest) =
     (case nfa_add_transition cpy new_q q [] of
        Inl e \<Rightarrow> Inl e
      | Inr cpy1 \<Rightarrow> link_starts cpy1 new_q rest)"

text \<open>
  The local \<open>transitions\<close> of \<open>to_dfa\<close> is a plain \<open>dict\<close> from tuples of states
  to dictionaries from symbols to sets: reading a missing key raises \<open>KeyError\<close>.
  \<open>subset_init\<close> is \<open>transitions[r][a] = set()\<close> and \<open>subset_add\<close> is
  \<open>transitions[r][a].add(to_state)\<close>.
\<close>

type_synonym subset_table = "(state list \<times> (string \<times> state list) list) list"

definition subset_init :: "subset_table \<Rightarrow> state list \<Rightarrow> string \<Rightarrow> error + subset_table" where
  "subset_init tr r a =
     (case map_of tr r of
        None \<Rightarrow> Inl KeyError
      | Some m \<Rightarrow> Inr (AList.update r (AList.update a [] m) tr))"

definition subset_add ::
  "subset_table \<Rightarrow> state list \<Rightarrow> string \<Rightarrow> state \<Rightarrow> error + subset_table" where
  "subset_add tr r a to_state =
     (case map_of tr r of
        None \<Rightarrow> Inl KeyError
      | Some m \<Rightarrow>
          (case map_of m a of
             None \<Rightarrow> Inl KeyError
           | Some ts \<Rightarrow> Inr (AList.update r (AList.update a (set_add to_state ts) m) tr)))"

text \<open>
  The loops of \<open>to_dfa\<close>, innermost first: over the states of one closure, over the
  targets \<open>ts\<close> of one state, over the states of the subset \<open>r\<close>, over the alphabet,
  and over the subsets.
\<close>

fun subset_closure ::
  "subset_table \<Rightarrow> state list \<Rightarrow> string \<Rightarrow> state list \<Rightarrow> error + subset_table" where
  "subset_closure tr r a [] = Inr tr"
| "subset_closure tr r a (to_state # rest) =
     (case subset_add tr r a to_state of
        Inl e \<Rightarrow> Inl e
      | Inr tr1 \<Rightarrow> subset_closure tr1 r a rest)"

fun subset_targets ::
  "nfa \<Rightarrow> subset_table \<Rightarrow> state list \<Rightarrow> string \<Rightarrow> state list \<Rightarrow>
   (error + subset_table) option" where
  "subset_targets cpy tr r a [] = Some (Inr tr)"
| "subset_targets cpy tr r a (ts # rest) =
     (case epsilon_closure cpy ts of
        None \<Rightarrow> None
      | Some (Inl e) \<Rightarrow> Some (Inl e)
      | Some (Inr closure) \<Rightarrow>
          (case subset_closure tr r a closure of
             Inl e \<Rightarrow> Some (Inl e)
           | Inr tr1 \<Rightarrow> subset_targets cpy tr1 r a rest))"

fun subset_states ::
  "nfa \<Rightarrow> subset_table \<Rightarrow> state list \<Rightarrow> string \<Rightarrow> state list \<Rightarrow>
   (error + subset_table) option" where
  "subset_states cpy tr r a [] = Some (Inr tr)"
| "subset_states cpy tr r a (state # rest) =
     (case nfa_transition cpy state a of
        Inl e \<Rightarrow> Some (Inl e)
      | Inr tss \<Rightarrow>
          (case subset_targets cpy tr r a tss of
             None \<Rightarrow> None
           | Some (Inl e) \<Rightarrow> Some (Inl e)
           | Some (Inr tr1) \<Rightarrow> subset_states cpy tr1 r a rest))"

fun subset_letters ::
  "nfa \<Rightarrow> subset_table \<Rightarrow> state list \<Rightarrow> string list \<Rightarrow> (error + subset_table) option" where
  "subset_letters cpy tr r [] = Some (Inr tr)"
| "subset_letters cpy tr r (a # rest) =
     (case subset_init tr r a of
        Inl e \<Rightarrow> Some (Inl e)
      | Inr tr1 \<Rightarrow>
          (case subset_states cpy tr1 r a r of
             None \<Rightarrow> None
           | Some (Inl e) \<Rightarrow> Some (Inl e)
           | Some (Inr tr2) \<Rightarrow> subset_letters cpy tr2 r rest))"

fun subset_loop ::
  "nfa \<Rightarrow> subset_table \<times> state list list \<Rightarrow> state list list \<Rightarrow>
   (error + subset_table \<times> state list list) option" where
  "subset_loop cpy acc [] = Some (Inr acc)"
| "subset_loop cpy (tr, accept_prime) (r # rest) =
     (case subset_letters cpy tr r (nfa_alphabet cpy) of
        None \<Rightarrow> None
      | Some (Inl e) \<Rightarrow> Some (Inl e)
      | Some (Inr tr1) \<Rightarrow>
          subset_loop cpy
            (tr1, if \<exists>s \<in> set r. s \<in> set (nfa_accept_states cpy)
                  then set_add r accept_prime else accept_prime)
            rest)"

text \<open>
  \<open>NFA.to_dfa()\<close>. The copy has the fields of \<open>self\<close>. The subsets are those of
  \<open>self._states\<close>. After the loop over \<open>q_prime\<close> that iterator is exhausted, so the
  label joined from it for \<open>dfa.states\<close> is the empty string. The last loop unpacks
  each item of \<open>transitions\<close> into a key and a dictionary and reads
  \<open>transitions[q][a]\<close> with that dictionary as the key, which raises \<open>TypeError\<close>
  (a dictionary is not hashable). The \<open>DFA\<close> class is the automaton of the section
  above.
\<close>

definition to_dfa :: "nfa \<Rightarrow> (error + automaton) option" where
  "to_dfa self =
     (case (if length (nfa_start_states self) > 1
            then (case link_starts (self\<lparr>nfa_states := set_add (State ''__q0__'') (nfa_states self)\<rparr>)
                         (State ''__q0__'') (nfa_start_states self) of
                    Inl e \<Rightarrow> Inl e
                  | Inr cpy1 \<Rightarrow> Inr (cpy1\<lparr>nfa_start_states := [State ''__q0__'']\<rparr>))
            else Inr self) of
        Inl e \<Rightarrow> Some (Inl e)
      | Inr cpy \<Rightarrow>
          (case nfa_start_states cpy of
             [] \<Rightarrow> Some (Inl StopIteration)
           | q0 # others \<Rightarrow>
               (case epsilon_closure cpy q0 of
                  None \<Rightarrow> None
                | Some (Inl e) \<Rightarrow> Some (Inl e)
                | Some (Inr q0_prime) \<Rightarrow>
                    (case subset_loop cpy ([], []) (power_set (nfa_states self)) of
                       None \<Rightarrow> None
                     | Some (Inl e) \<Rightarrow> Some (Inl e)
                     | Some (Inr (tr, accept_prime)) \<Rightarrow>
                         (let dfa = (Automaton (nfa_alphabet self)
                                       (State (concat (map name q0_prime))))
                                    \<lparr>states := {State []},
                                     accept_states :=
                                       set (map (\<lambda>st. State (concat (map name st))) accept_prime)\<rparr>
                          in case tr of
                               [] \<Rightarrow> minimize dfa
                             | item # items \<Rightarrow> Some (Inl TypeError))))))"

text \<open>
  The registration invariant of the specification: every state that appears in the
  transition relation, as the source or as a target of a transition, is in the state
  set that \<open>get_states\<close> returns.
\<close>

definition registered :: "nfa \<Rightarrow> bool" where
  "registered N =
     (\<forall>q a q'. q' \<in> targets N q a \<longrightarrow> q \<in> set (get_states N) \<and> q' \<in> set (get_states N))"

section \<open>Example automata\<close>

text \<open>
  A small automaton over \<open>{a, b}\<close> used to instantiate the theorems below: the start
  state has the empty label, and one transition on \<open>a\<close> leads to the accepting
  state labelled \<open>a\<close>.
\<close>

definition dfa_example :: automaton where
  "dfa_example =
     \<lparr>start_state = State [], alphabet = [''a'', ''b''],
      states = {State [], State ''a''}, accept_states = {State ''a''},
      reject_states = {}, transitions = [State [] \<mapsto> [''a'' \<mapsto> State ''a'']]\<rparr>"

text \<open>
  An automaton whose start state is not labelled with the empty string:
  \<open>Automaton({'a'}, State('q0'))\<close> after \<open>add_transition(State('q0'), State('q1'), 'a')\<close>
  and \<open>accept_states.add(State('q1'))\<close>. It accepts exactly the string \<open>a\<close>.
\<close>

definition dfa_named_start :: automaton where
  "dfa_named_start =
     \<lparr>start_state = State ''q0'', alphabet = [''a''],
      states = {State ''q0'', State ''q1''}, accept_states = {State ''q1''},
      reject_states = {}, transitions = [State ''q0'' \<mapsto> [''a'' \<mapsto> State ''q1'']]\<rparr>"

text \<open>
  An NFA over \<open>{a}\<close> for \<open>a*\<close>, with no \<open>\<epsilon>\<close>-transition: \<open>NFA({'a'})\<close> after
  \<open>add_start_state(State('q0'))\<close>, \<open>add_accepting_state(State('q0'))\<close> and
  \<open>add_transition(State('q0'), State('q0'), 'a')\<close>.
\<close>

definition nfa_a_star :: nfa where
  "nfa_a_star =
     \<lparr>nfa_alphabet = [''a''], nfa_start_states = [State ''q0''],
      nfa_states = [State ''q0''], nfa_accept_states = [State ''q0''],
      nfa_transitions = [State ''q0'' \<mapsto> [(''a'', [State ''q0''])]]\<rparr>"

text \<open>
  An NFA over \<open>{a}\<close> whose start state \<open>q0\<close> has one \<open>\<epsilon>\<close>-transition to the
  accept state \<open>q1\<close>: \<open>NFA({'a'})\<close> after \<open>add_start_state(State('q0'))\<close>,
  \<open>add_state(State('q1'))\<close>, \<open>add_accepting_state(State('q1'))\<close> and
  \<open>add_transition(State('q0'), State('q1'), '')\<close>.
\<close>

definition nfa_eps_example :: nfa where
  "nfa_eps_example =
     \<lparr>nfa_alphabet = [''a''], nfa_start_states = [State ''q0''],
      nfa_states = [State ''q0'', State ''q1''], nfa_accept_states = [State ''q1''],
      nfa_transitions = [State ''q0'' \<mapsto> [([], [State ''q1''])]]\<rparr>"

text \<open>
  An NFA over \<open>{a}\<close> whose only transition is an \<open>\<epsilon>\<close>-transition from its start
  state to itself: \<open>NFA({'a'})\<close> after \<open>add_start_state(State('q0'))\<close>,
  \<open>add_accepting_state(State('q0'))\<close> and
  \<open>add_transition(State('q0'), State('q0'), '')\<close>.
\<close>

definition nfa_eps_loop :: nfa where
  "nfa_eps_loop =
     \<lparr>nfa_alphabet = [''a''], nfa_start_states = [State ''q0''],
      nfa_states = [State ''q0''], nfa_accept_states = [State ''q0''],
      nfa_transitions = [State ''q0'' \<mapsto> [([], [State ''q0''])]]\<rparr>"

text \<open>
  The automaton that \<open>build_pta({'a'}, set())\<close> returns: the prefixes of the one
  example are the empty string and \<open>a\<close>, and \<open>aa\<close> is the state added for the
  transition from \<open>a\<close>.
\<close>

definition pta_a :: automaton where
  "pta_a =
     \<lparr>start_state = State [], alphabet = [''a''],
      states = {State [], State ''a'', State ''aa''},
      accept_states = {State ''a''}, reject_states = {},
      transitions = [State [] \<mapsto> [''a'' \<mapsto> State ''a''],
                     State ''a'' \<mapsto> [''a'' \<mapsto> State ''aa'']]\<rparr>"

section \<open>The example automata are built through the interface\<close>

lemma dfa_named_start_built:
  "add_transition (Automaton [''a''] (State ''q0'')) (State ''q0'') (State ''q1'') ''a'' = Inr D \<Longrightarrow>
   D\<lparr>accept_states := insert (State ''q1'') (accept_states D)\<rparr> = dfa_named_start"
  by (auto simp: add_transition_def Automaton_def getitem_default_def dfa_named_start_def)

lemma nfa_a_star_built:
  "nfa_add_transition
     (add_accepting_state (add_start_state (NFA [''a'']) (State ''q0'')) (State ''q0''))
     (State ''q0'') (State ''q0'') ''a'' = Inr nfa_a_star"
  by (simp add: nfa_add_transition_def add_accepting_state_def add_start_state_def NFA_def
      nfa_a_star_def set_add_def nfa_getitem_def Let_def)

lemma nfa_eps_example_built:
  "nfa_add_transition
     (add_accepting_state (add_state (add_start_state (NFA [''a'']) (State ''q0'')) (State ''q1''))
        (State ''q1''))
     (State ''q0'') (State ''q1'') [] = Inr nfa_eps_example"
  by (simp add: nfa_add_transition_def add_accepting_state_def add_start_state_def add_state_def
      NFA_def nfa_eps_example_def set_add_def nfa_getitem_def Let_def)

lemma nfa_eps_loop_built:
  "nfa_add_transition
     (add_accepting_state (add_start_state (NFA [''a'']) (State ''q0'')) (State ''q0''))
     (State ''q0'') (State ''q0'') [] = Inr nfa_eps_loop"
  by (simp add: nfa_add_transition_def add_accepting_state_def add_start_state_def NFA_def
      nfa_eps_loop_def set_add_def nfa_getitem_def Let_def)

section \<open>Properties of the deterministic automaton\<close>

lemma getitem_default_present:
  "d k = Some v \<Longrightarrow> getitem_default d k = (v, d)"
  by (simp add: getitem_default_def)

lemma transition_exists_eq:
  "transition_exists D q a = (Inr (delta D q a \<noteq> None), D)"
  by (auto simp: transition_exists_def transition_def getitem_default_def delta_def
      lookup_def dom_def split: option.splits)

lemma transition_defined:
  "delta D q a = Some q' \<Longrightarrow> transition D q a = (Inr q', D)"
  by (auto simp: transition_def getitem_default_def delta_def lookup_def
      split: option.splits if_splits)

lemma delta_in_states: "delta D q a = Some q' \<Longrightarrow> q' \<in> states D"
  by (auto simp: delta_def split: option.splits if_splits)

lemma parse_from_unchanged: "snd (parse_from D q s) = D"
proof (induction s arbitrary: q)
  case Nil
  show ?case by simp
next
  case (Cons c s)
  show ?case
  proof (cases "delta D q [c]")
    case None
    then show ?thesis by (simp add: transition_exists_eq)
  next
    case (Some q')
    then show ?thesis
      using Cons.IH [of q'] by (simp add: transition_exists_eq transition_defined)
  qed
qed

lemma parse_from_step_defined:
  "delta D q [c] = Some q' \<Longrightarrow> parse_from D q (c # s) = parse_from D q' s"
  by (simp add: transition_exists_eq transition_defined)

lemma parse_from_step_undefined:
  "delta D q [c] = None \<Longrightarrow> parse_from D q (c # s) = (Inr (q, False), D)"
  by (simp add: transition_exists_eq)

declare parse_from.simps(2) [simp del]

lemma parse_from_returns:
  "q \<in> states D \<Longrightarrow> \<exists>q' b. fst (parse_from D q s) = Inr (q', b) \<and> q' \<in> states D"
proof (induction s arbitrary: q)
  case Nil
  then show ?case by simp
next
  case (Cons c s)
  show ?case
  proof (cases "delta D q [c]")
    case None
    with Cons.prems show ?thesis by (auto simp: parse_from_step_undefined)
  next
    case (Some q')
    then have "q' \<in> states D" by (rule delta_in_states)
    from Cons.IH [OF this] Some show ?thesis by (simp add: parse_from_step_defined)
  qed
qed

lemma parse_from_consumed:
  "delta_star D q s = Some q' \<Longrightarrow> fst (parse_from D q s) = Inr (q', q' \<in> accept_states D)"
proof (induction s arbitrary: q)
  case Nil
  then show ?case by simp
next
  case (Cons c s)
  from Cons.prems obtain q1 where q1: "delta D q [c] = Some q1" "delta_star D q1 s = Some q'"
    by (auto split: option.splits)
  from Cons.IH [OF q1(2)] q1(1) show ?case by (simp add: parse_from_step_defined)
qed

lemma parse_from_stuck:
  "delta_star D q p = Some q' \<Longrightarrow> delta D q' [c] = None \<Longrightarrow>
   fst (parse_from D q (p @ c # r)) = Inr (q', False)"
proof (induction p arbitrary: q)
  case Nil
  then show ?case by (simp add: parse_from_step_undefined)
next
  case (Cons x p)
  from Cons.prems(1) obtain q1 where q1: "delta D q [x] = Some q1" "delta_star D q1 p = Some q'"
    by (auto split: option.splits)
  from Cons.IH [OF q1(2) Cons.prems(2)] q1(1) show ?case
    by (simp add: parse_from_step_defined)
qed

text \<open>
  Claim C4. For every automaton whose start state is one of its states and every
  string \<open>s\<close>, \<open>parse_string\<close> raises nothing and returns a pair \<open>(q, b)\<close> with
  \<open>q\<close> a state of the automaton. If every step of \<open>s\<close> from the start state is
  defined, \<open>q\<close> is the state reached and \<open>b\<close> says whether it is an accept state.
  If \<open>s = p @ c # r\<close> where \<open>p\<close> leads to \<open>q'\<close> and \<open>\<delta>(q', c)\<close> is undefined,
  the result is \<open>(q', False)\<close>.
\<close>

theorem parse_string_total:
  assumes "start_state D \<in> states D"
  shows "\<exists>q b. fst (parse_string D s) = Inr (q, b) \<and> q \<in> states D \<and>
           (\<forall>q'. delta_star D (start_state D) s = Some q' \<longrightarrow>
                  q = q' \<and> b = (q' \<in> accept_states D)) \<and>
           (\<forall>p c r q'. s = p @ c # r \<and> delta_star D (start_state D) p = Some q' \<and>
                  delta D q' [c] = None \<longrightarrow> q = q' \<and> b = False)"
proof -
  from parse_from_returns [OF assms, of s]
  obtain q b where qb: "fst (parse_from D (start_state D) s) = Inr (q, b)" "q \<in> states D"
    by blast
  have full: "q = q' \<and> b = (q' \<in> accept_states D)"
    if "delta_star D (start_state D) s = Some q'" for q'
    using parse_from_consumed [OF that] qb(1) by simp
  have stuck: "q = q' \<and> b = False"
    if "s = p @ c # r \<and> delta_star D (start_state D) p = Some q' \<and> delta D q' [c] = None"
    for p c r q'
    using parse_from_stuck [of D "start_state D" p q' c r] that qb(1) by simp
  show ?thesis
    unfolding parse_string_def using qb full stuck by blast
qed

theorem parse_string_total_witness:
  "start_state dfa_example \<in> states dfa_example \<and>
   fst (parse_string dfa_example ''ab'') = Inr (State ''a'', False) \<and>
   fst (parse_string dfa_example ''a'') = Inr (State ''a'', True)"
proof -
  have st: "start_state dfa_example \<in> states dfa_example"
    by (simp add: dfa_example_def)
  have d1: "delta_star dfa_example (start_state dfa_example) ''a'' = Some (State ''a'')"
    by (simp add: dfa_example_def delta_def lookup_def)
  have d2: "delta dfa_example (State ''a'') ''b'' = None"
    by (simp add: dfa_example_def delta_def lookup_def)
  have acc: "State ''a'' \<in> accept_states dfa_example"
    by (simp add: dfa_example_def)
  from parse_string_total [OF st, of "''ab''"]
  obtain q b where r: "fst (parse_string dfa_example ''ab'') = Inr (q, b)"
    and stuck: "\<And>p c r q'. ''ab'' = p @ c # r \<and>
        delta_star dfa_example (start_state dfa_example) p = Some q' \<and>
        delta dfa_example q' [c] = None \<Longrightarrow> q = q' \<and> b = False"
    by blast
  from stuck [of "''a''" "CHR ''b''" "[]" "State ''a''"] d1 d2 r
  have ab: "fst (parse_string dfa_example ''ab'') = Inr (State ''a'', False)"
    by simp
  from parse_string_total [OF st, of "''a''"]
  obtain q b where r: "fst (parse_string dfa_example ''a'') = Inr (q, b)"
    and full: "\<And>q'. delta_star dfa_example (start_state dfa_example) ''a'' = Some q' \<Longrightarrow>
        q = q' \<and> b = (q' \<in> accept_states dfa_example)"
    by blast
  from full [OF d1] acc r
  have "fst (parse_string dfa_example ''a'') = Inr (State ''a'', True)"
    by simp
  with ab st show ?thesis by simp
qed

text \<open>
  Claim C7. \<open>add_transition D q1 q2 a\<close> raises exactly when \<open>a\<close> is not in the
  alphabet, and what it raises is the \<open>ValueError\<close>. Otherwise it returns the
  automaton with \<open>q1\<close> and \<open>q2\<close> added to the states and the table entry for
  \<open>(q1, a)\<close> set to \<open>q2\<close>, whatever it was before; every other entry and every
  other field is as before. The table is a function of the state and the symbol, so an
  entry has one target.
\<close>

theorem add_transition_raises_iff:
  "((\<exists>e. add_transition D q1 q2 a = Inl e) \<longleftrightarrow> a \<notin> set (alphabet D)) \<and>
   (a \<notin> set (alphabet D) \<longrightarrow> add_transition D q1 q2 a = Inl ValueError) \<and>
   (a \<in> set (alphabet D) \<longrightarrow>
      (\<exists>D'. add_transition D q1 q2 a = Inr D' \<and>
         states D' = states D \<union> {q1, q2} \<and>
         lookup D' q1 a = Some q2 \<and>
         (\<forall>q b. (q, b) \<noteq> (q1, a) \<longrightarrow> lookup D' q b = lookup D q b) \<and>
         start_state D' = start_state D \<and> alphabet D' = alphabet D \<and>
         accept_states D' = accept_states D \<and> reject_states D' = reject_states D))"
  by (auto simp: add_transition_def getitem_default_def lookup_def Let_def
      split: option.splits)

theorem add_transition_raises_iff_witness:
  "''a'' \<in> set (alphabet dfa_example) \<and>
   lookup dfa_example (State []) ''a'' = Some (State ''a'') \<and>
   (\<exists>D'. add_transition dfa_example (State []) (State ''b'') ''a'' = Inr D' \<and>
      states D' = {State [], State ''a'', State ''b''} \<and>
      lookup D' (State []) ''a'' = Some (State ''b'')) \<and>
   ''c'' \<notin> set (alphabet dfa_example) \<and>
   add_transition dfa_example (State []) (State ''b'') ''c'' = Inl ValueError"
proof -
  have a: "''a'' \<in> set (alphabet dfa_example)" and c: "''c'' \<notin> set (alphabet dfa_example)"
    and l: "lookup dfa_example (State []) ''a'' = Some (State ''a'')"
    and s: "states dfa_example \<union> {State [], State ''b''} = {State [], State ''a'', State ''b''}"
    by (auto simp: dfa_example_def lookup_def)
  from add_transition_raises_iff [of dfa_example "State []" "State ''b''" "''a''"] a s
  have "\<exists>D'. add_transition dfa_example (State []) (State ''b'') ''a'' = Inr D' \<and>
      states D' = {State [], State ''a'', State ''b''} \<and>
      lookup D' (State []) ''a'' = Some (State ''b'')"
    by auto
  moreover from add_transition_raises_iff [of dfa_example "State []" "State ''b''" "''c''"] c
  have "add_transition dfa_example (State []) (State ''b'') ''c'' = Inl ValueError"
    by blast
  ultimately show ?thesis using a c l by blast
qed

text \<open>
  Claim C9. \<open>parse_string\<close> only observes the automaton: the automaton after the call
  is the automaton before it, field by field, and so is the automaton after
  \<open>transition_exists\<close>, which tests membership and never reads a missing key through
  the \<open>defaultdict\<close>.
\<close>

theorem parse_string_observation_only:
  "snd (parse_string D s) = D \<and> snd (transition_exists D q a) = D"
  by (simp add: parse_string_def parse_from_unchanged transition_exists_eq)

section \<open>Properties of the non-deterministic automaton\<close>

lemmas parse_while_induct = parse_while.raw_induct [rotated 1, consumes 1, case_names step]

lemma push_targets_ok:
  "index < length s \<Longrightarrow> \<forall>p \<in> set stack. snd p \<le> length s \<Longrightarrow>
   \<exists>st. push_targets s index symbol ts stack = Inr st \<and> (\<forall>p \<in> set st. snd p \<le> length s)"
  by (induction ts arbitrary: stack) auto

lemma push_symbols_ok:
  "index < length s \<Longrightarrow> \<forall>p \<in> set stack. snd p \<le> length s \<Longrightarrow>
   \<exists>st. push_symbols s index symbols stack = Inr st \<and> (\<forall>p \<in> set st. snd p \<le> length s)"
proof (induction symbols arbitrary: stack)
  case Nil
  then show ?case by simp
next
  case (Cons x symbols)
  obtain symbol ts where x: "x = (symbol, ts)" by (cases x)
  from push_targets_ok [OF Cons.prems, of symbol ts]
  obtain st where st: "push_targets s index symbol ts stack = Inr st"
    "\<forall>p \<in> set st. snd p \<le> length s" by blast
  from Cons.IH [OF Cons.prems(1) st(2)] st(1) x show ?case by simp
qed

lemma parse_while_no_error:
  assumes "parse_while N s stack = Some r" and "\<forall>p \<in> set stack. snd p \<le> length s"
  shows "\<exists>x. r = Inr x"
  using assms
proof (induction rule: parse_while_induct)
  case (step parse_while N s stack r)
  show ?case
  proof (cases "stack = []")
    case True
    with step.hyps show ?thesis by auto
  next
    case False
    obtain state index where l: "last stack = (state, index)" by (cases "last stack")
    from False l step.prems have idx: "index \<le> length s"
      using last_in_set by fastforce
    have bl: "\<forall>p \<in> set (butlast stack). snd p \<le> length s"
      using step.prems by (auto dest: in_set_butlastD)
    show ?thesis
    proof (cases "index = length s")
      case True
      with False l step.hyps step.IH [OF _ bl] show ?thesis
        by (auto split: if_splits)
    next
      case ne: False
      with idx have "index < length s" by simp
      from push_symbols_ok [OF this bl, of "nfa_getitem N state"]
      obtain st where st: "push_symbols s index (nfa_getitem N state) (butlast stack) = Inr st"
        "\<forall>p \<in> set st. snd p \<le> length s" by blast
      with False l ne step.hyps step.IH [OF _ st(2)] show ?thesis
        by auto
    qed
  qed
qed


lemma parse_starts_no_error:
  "parse_starts N s qs = Some r \<Longrightarrow> \<exists>x. r = Inr x"
proof (induction qs)
  case Nil
  then show ?case by auto
next
  case (Cons q qs)
  show ?case
  proof (cases "parse_while N s [(q, 0)]")
    case None
    with Cons.prems show ?thesis by simp
  next
    case (Some w)
    from parse_while_no_error [OF Some] obtain x where "w = Inr x" by auto
    with Some Cons show ?thesis by (cases x) auto
  qed
qed

text \<open>
  Claim C10. On an NFA with no start state \<open>parse_string\<close> raises (the
  \<open>StopIteration\<close> of \<open>next\<close> on an empty iterator) for every string, so it returns
  no pair. On an NFA with a start state it raises nothing: whenever it returns, it
  returns a pair.
\<close>

theorem nfa_parse_string_needs_start:
  "(nfa_start_states N = [] \<longrightarrow> nfa_parse_string N s = Some (Inl StopIteration)) \<and>
   (nfa_start_states N \<noteq> [] \<longrightarrow> (\<forall>e. nfa_parse_string N s \<noteq> Some (Inl e)))"
proof (intro conjI impI allI)
  assume "nfa_start_states N = []"
  then show "nfa_parse_string N s = Some (Inl StopIteration)"
    by (simp add: nfa_parse_string_def)
next
  fix e
  assume ne: "nfa_start_states N \<noteq> []"
  show "nfa_parse_string N s \<noteq> Some (Inl e)"
  proof (cases "parse_starts N s (nfa_start_states N)")
    case None
    then show ?thesis by (simp add: nfa_parse_string_def)
  next
    case (Some w)
    from parse_starts_no_error [OF Some] obtain x where "w = Inr x" by auto
    with Some ne show ?thesis
      by (cases x; cases "nfa_start_states N") (auto simp: nfa_parse_string_def)
  qed
qed

theorem nfa_parse_string_needs_start_witness:
  "nfa_start_states (NFA [''a'']) = [] \<and>
   nfa_parse_string (NFA [''a'']) ''a'' = Some (Inl StopIteration) \<and>
   nfa_start_states nfa_a_star \<noteq> [] \<and>
   (\<forall>e. nfa_parse_string nfa_a_star ''a'' \<noteq> Some (Inl e))"
proof -
  have e: "nfa_start_states (NFA [''a'']) = []" by (simp add: NFA_def)
  have n: "nfa_start_states nfa_a_star \<noteq> []" by (simp add: nfa_a_star_def)
  from nfa_parse_string_needs_start [of "NFA [''a'']" "''a''"] e
    nfa_parse_string_needs_start [of nfa_a_star "''a''"] n
  show ?thesis by blast
qed

text \<open>
  What the search finds is a run. When every dictionary of the table has each symbol
  once, as a Python dictionary does, and \<open>parse_string\<close> returns \<open>(q, True)\<close>,
  then \<open>q\<close> is an accept state and some run from a start state consumes exactly the
  string and ends in \<open>q\<close>.
\<close>

lemma nfa_run_eps_end:
  "nfa_run N q w r \<Longrightarrow> r' \<in> targets N r [] \<Longrightarrow> nfa_run N q w r'"
  by (induction rule: nfa_run.induct) (auto intro: nfa_run.intros)

lemma nfa_run_sym_end:
  "nfa_run N q w r \<Longrightarrow> r' \<in> targets N r [c] \<Longrightarrow> nfa_run N q (w @ [c]) r'"
  by (induction rule: nfa_run.induct) (auto intro: nfa_run.intros)

lemma push_targets_reached:
  assumes "index < length s" "nfa_run N q0 (take index s) q"
    and "set ts \<subseteq> targets N q symbol" "\<forall>p \<in> set stack. reached N q0 s p"
    and "push_targets s index symbol ts stack = Inr st"
  shows "\<forall>p \<in> set st. reached N q0 s p"
  using assms
proof (induction ts arbitrary: stack)
  case Nil
  then show ?case by simp
next
  case (Cons t ts)
  show ?case
  proof (cases "symbol = []")
    case True
    with Cons.prems(2,3) have "nfa_run N q0 (take index s) t"
      by (auto intro: nfa_run_eps_end)
    with Cons.prems(1) have "reached N q0 s (t, index)" by (simp add: reached_def)
    with Cons.prems(4) have "\<forall>p \<in> set (stack @ [(t, index)]). reached N q0 s p" by auto
    from Cons.IH [OF Cons.prems(1,2) _ this] Cons.prems(3,5) True show ?thesis by simp
  next
    case ne: False
    show ?thesis
    proof (cases "symbol = [s ! index]")
      case True
      with Cons.prems(2,3) have "nfa_run N q0 (take index s @ [s ! index]) t"
        by (auto intro: nfa_run_sym_end)
      with Cons.prems(1) have "reached N q0 s (t, index + 1)"
        by (simp add: reached_def take_Suc_conv_app_nth)
      with Cons.prems(4) have "\<forall>p \<in> set (stack @ [(t, index + 1)]). reached N q0 s p" by auto
      from Cons.IH [OF Cons.prems(1,2) _ this] Cons.prems(1,3,5) True ne show ?thesis by simp
    next
      case False
      from Cons.IH [OF Cons.prems(1,2) _ Cons.prems(4)] Cons.prems(1,3,5) False ne
      show ?thesis by simp
    qed
  qed
qed

lemma push_symbols_reached:
  assumes "index < length s" "nfa_run N q0 (take index s) q"
    and "\<forall>(symbol, ts) \<in> set symbols. set ts \<subseteq> targets N q symbol"
    and "\<forall>p \<in> set stack. reached N q0 s p"
    and "push_symbols s index symbols stack = Inr st"
  shows "\<forall>p \<in> set st. reached N q0 s p"
  using assms
proof (induction symbols arbitrary: stack)
  case Nil
  then show ?case by simp
next
  case (Cons x symbols)
  obtain symbol ts where x: "x = (symbol, ts)" by (cases x)
  from Cons.prems(5) x obtain st1 where st1: "push_targets s index symbol ts stack = Inr st1"
    "push_symbols s index symbols st1 = Inr st"
    by (auto split: sum.splits)
  from Cons.prems(3) x have sub: "set ts \<subseteq> targets N q symbol" by simp
  from push_targets_reached [OF Cons.prems(1,2) sub Cons.prems(4) st1(1)]
  have "\<forall>p \<in> set st1. reached N q0 s p" .
  from Cons.IH [OF Cons.prems(1,2) _ this st1(2)] Cons.prems(3) show ?case by simp
qed


lemma entries_are_targets:
  assumes "distinct (map fst (nfa_getitem N q))"
  shows "\<forall>(symbol, ts) \<in> set (nfa_getitem N q). set ts \<subseteq> targets N q symbol"
  using assms by (auto simp: targets_def)

lemma parse_while_sound:
  assumes "parse_while N s stack = Some res"
    and "\<forall>p \<in> set stack. reached N q0 s p"
    and "\<forall>q. distinct (map fst (nfa_getitem N q))"
    and "res = Inr (Some r)"
  shows "r \<in> set (nfa_accept_states N) \<and> nfa_run N q0 s r"
  using assms
proof (induction rule: parse_while_induct)
  case (step parse_while N s stack res)
  from step.hyps step.prems(3) have ne: "stack \<noteq> []" by (auto split: if_splits)
  obtain q index where l: "last stack = (q, index)" by (cases "last stack")
  from ne l step.prems(1) have top: "reached N q0 s (q, index)"
    using last_in_set by fastforce
  have bl: "\<forall>p \<in> set (butlast stack). reached N q0 s p"
    using step.prems(1) by (auto dest: in_set_butlastD)
  show ?case
  proof (cases "index = length s")
    case True
    show ?thesis
    proof (cases "q \<in> set (nfa_accept_states N)")
      case acc: True
      with ne l True step.hyps step.prems(3) have "r = q" by simp
      with acc top True show ?thesis by (simp add: reached_def)
    next
      case False
      with ne l True step.hyps have "parse_while N s (butlast stack) = Some res" by simp
      from step.IH [OF this bl step.prems(2,3)] show ?thesis .
    qed
  next
    case False
    with top have lt: "index < length s" and run: "nfa_run N q0 (take index s) q"
      by (simp_all add: reached_def)
    from ne l False step.hyps obtain st where
      st: "push_symbols s index (nfa_getitem N q) (butlast stack) = Inr st"
      "parse_while N s st = Some res"
      using step.prems(3) by (auto split: sum.splits)
    from step.prems(2) have "distinct (map fst (nfa_getitem N q))" by simp
    from push_symbols_reached [OF lt run entries_are_targets [OF this] bl st(1)]
    have "\<forall>p \<in> set st. reached N q0 s p" .
    from step.IH [OF st(2) this step.prems(2,3)] show ?thesis .
  qed
qed

lemma parse_starts_sound:
  assumes "parse_starts N s qs = Some (Inr (Some r))"
    and "\<forall>q. distinct (map fst (nfa_getitem N q))"
  shows "r \<in> set (nfa_accept_states N) \<and> (\<exists>q0. q0 \<in> set qs \<and> nfa_run N q0 s r)"
  using assms
proof (induction qs)
  case Nil
  then show ?case by simp
next
  case (Cons q qs)
  show ?case
  proof (cases "parse_while N s [(q, 0)] = Some (Inr (Some r))")
    case True
    have "\<forall>p \<in> set [(q, 0)]. reached N q s p"
      by (simp add: reached_def run_done)
    from parse_while_sound [OF True this Cons.prems(2)] show ?thesis by auto
  next
    case False
    with Cons.prems(1) have "parse_starts N s qs = Some (Inr (Some r))"
      by (auto split: option.splits sum.splits)
    from Cons.IH [OF this Cons.prems(2)] show ?thesis by auto
  qed
qed

lemma nfa_parse_string_sound:
  assumes "nfa_parse_string N s = Some (Inr (q, True))"
    and "\<forall>q. distinct (map fst (nfa_getitem N q))"
  shows "q \<in> set (nfa_accept_states N) \<and> accepting_run N s"
proof -
  from assms(1) have "parse_starts N s (nfa_start_states N) = Some (Inr (Some q))"
    by (auto simp: nfa_parse_string_def split: option.splits sum.splits list.splits)
  from parse_starts_sound [OF this assms(2)] show ?thesis
    by (auto simp: accepting_run_def)
qed


lemma set_set_add: "set (set_add x xs) = insert x (set xs)"
  by (auto simp: set_add_def)

lemma nfa_add_transition_result:
  assumes "a \<in> set (nfa_alphabet N) \<or> a = []"
  shows "\<exists>m. nfa_add_transition N q1 q2 a =
              Inr (N\<lparr>nfa_transitions := (nfa_transitions N)(q1 \<mapsto> m)\<rparr>) \<and>
            map_of m = (map_of (nfa_getitem N q1))
              (a \<mapsto> set_add q2 (case map_of (nfa_getitem N q1) a of None \<Rightarrow> [] | Some ts \<Rightarrow> ts))"
proof (cases "map_of (nfa_getitem N q1) a")
  case None
  then have k: "a \<notin> fst ` set (nfa_getitem N q1)" by (simp add: map_of_eq_None_iff)
  have "nfa_add_transition N q1 q2 a =
      Inr (N\<lparr>nfa_transitions := (nfa_transitions N)
        (q1 \<mapsto> AList.update a (set_add q2 []) (AList.update a [] (nfa_getitem N q1)))\<rparr>)"
    using assms k by (simp add: nfa_add_transition_def Let_def update_conv')
  moreover have "map_of (AList.update a (set_add q2 []) (AList.update a [] (nfa_getitem N q1))) =
      (map_of (nfa_getitem N q1))(a \<mapsto> set_add q2 [])"
    by (simp add: update_conv')
  ultimately show ?thesis using None by auto
next
  case (Some ts)
  then have k: "a \<in> fst ` set (nfa_getitem N q1)"
    using map_of_eq_None_iff [of "nfa_getitem N q1" a] by simp
  have "nfa_add_transition N q1 q2 a =
      Inr (N\<lparr>nfa_transitions := (nfa_transitions N)
        (q1 \<mapsto> AList.update a (set_add q2 ts) (nfa_getitem N q1))\<rparr>)"
    using assms k Some by (simp add: nfa_add_transition_def Let_def)
  moreover have "map_of (AList.update a (set_add q2 ts) (nfa_getitem N q1)) =
      (map_of (nfa_getitem N q1))(a \<mapsto> set_add q2 ts)"
    by (simp add: update_conv')
  ultimately show ?thesis using Some by auto
qed

lemma targets_add:
  assumes "a \<in> set (nfa_alphabet N) \<or> a = []"
  shows "\<exists>N'. nfa_add_transition N q1 q2 a = Inr N' \<and> nfa_states N' = nfa_states N \<and>
     (\<forall>q b. targets N' q b =
        (if q = q1 \<and> b = a then insert q2 (targets N q1 a) else targets N q b))"
proof -
  from nfa_add_transition_result [OF assms, of q1 q2]
  obtain m where m: "nfa_add_transition N q1 q2 a =
              Inr (N\<lparr>nfa_transitions := (nfa_transitions N)(q1 \<mapsto> m)\<rparr>)"
     "map_of m = (map_of (nfa_getitem N q1))
              (a \<mapsto> set_add q2 (case map_of (nfa_getitem N q1) a of None \<Rightarrow> [] | Some ts \<Rightarrow> ts))"
    by blast
  let ?N = "N\<lparr>nfa_transitions := (nfa_transitions N)(q1 \<mapsto> m)\<rparr>"
  have g1: "nfa_getitem ?N q1 = m" by (simp add: nfa_getitem_def)
  have g2: "q \<noteq> q1 \<Longrightarrow> nfa_getitem ?N q = nfa_getitem N q" for q
    by (simp add: nfa_getitem_def)
  have "targets ?N q b = (if q = q1 \<and> b = a then insert q2 (targets N q1 a) else targets N q b)"
    for q b
  proof (cases "q = q1")
    case True
    then show ?thesis
      by (simp add: targets_def g1 m(2) set_set_add split: option.splits)
  next
    case False
    then show ?thesis by (simp add: targets_def g2)
  qed
  with m(1) show ?thesis by simp
qed

text \<open>
  Claim C5, as the code has it. \<open>add_transition(q1, q2, a)\<close> with \<open>a\<close> in the
  alphabet or empty raises nothing, adds \<open>q2\<close> to the targets of \<open>(q1, a)\<close>, leaves
  every other target set as it was, and leaves the state set that \<open>get_states\<close>
  returns unchanged: it registers no state. So the registration invariant holds after
  the call when it held before the call and \<open>q1\<close> and \<open>q2\<close> were states already.
\<close>

theorem nfa_add_transition_keeps_states:
  assumes "a \<in> set (nfa_alphabet N) \<or> a = []"
  shows "\<exists>N'. nfa_add_transition N q1 q2 a = Inr N' \<and>
           get_states N' = get_states N \<and>
           targets N' q1 a = insert q2 (targets N q1 a) \<and>
           (\<forall>q b. (q, b) \<noteq> (q1, a) \<longrightarrow> targets N' q b = targets N q b) \<and>
           (registered N \<and> q1 \<in> set (get_states N) \<and> q2 \<in> set (get_states N)
              \<longrightarrow> registered N')"
proof -
  from targets_add [OF assms, of q1 q2]
  obtain N' where N': "nfa_add_transition N q1 q2 a = Inr N'" "nfa_states N' = nfa_states N"
    and t: "\<And>q b. targets N' q b =
        (if q = q1 \<and> b = a then insert q2 (targets N q1 a) else targets N q b)"
    by blast
  have "registered N'"
    if "registered N \<and> q1 \<in> set (get_states N) \<and> q2 \<in> set (get_states N)"
    using that N'(2) unfolding registered_def get_states_def t
    by (auto split: if_splits)
  with N' t show ?thesis by (simp add: get_states_def)
qed

theorem nfa_add_transition_keeps_states_witness:
  "[] \<notin> set (nfa_alphabet nfa_a_star) \<and> registered nfa_a_star \<and>
   State ''q0'' \<in> set (get_states nfa_a_star) \<and>
   (\<exists>N'. nfa_add_transition nfa_a_star (State ''q0'') (State ''q0'') [] = Inr N' \<and>
      get_states N' = [State ''q0''] \<and>
      targets N' (State ''q0'') [] = {State ''q0''} \<and> registered N')"
proof -
  have a: "[] \<notin> set (nfa_alphabet nfa_a_star)"
    and q: "State ''q0'' \<in> set (get_states nfa_a_star)"
    and g: "get_states nfa_a_star = [State ''q0'']"
    and t: "targets nfa_a_star (State ''q0'') [] = {}"
    by (simp_all add: nfa_a_star_def get_states_def targets_def nfa_getitem_def)
  have r: "registered nfa_a_star"
    by (auto simp: registered_def targets_def nfa_getitem_def nfa_a_star_def get_states_def
        split: if_splits option.splits)
  from nfa_add_transition_keeps_states [of "[]" nfa_a_star "State ''q0''" "State ''q0''"]
  obtain N' where "nfa_add_transition nfa_a_star (State ''q0'') (State ''q0'') [] = Inr N'"
    "get_states N' = get_states nfa_a_star"
    "targets N' (State ''q0'') [] = insert (State ''q0'') (targets nfa_a_star (State ''q0'') [])"
    "registered nfa_a_star \<and> State ''q0'' \<in> set (get_states nfa_a_star) \<and>
       State ''q0'' \<in> set (get_states nfa_a_star) \<longrightarrow> registered N'"
    by blast
  with a q g t r show ?thesis by auto
qed

text \<open>
  Claim C5 as stated fails: on a new NFA over \<open>{a}\<close>, after
  \<open>add_transition(State('p'), State('q'), 'a')\<close> the state \<open>q\<close> is a target of the
  transition relation and is not in the state set.
\<close>

theorem nfa_add_transition_registers_counterexample:
  "nfa_add_transition (NFA [''a'']) (State ''p'') (State ''q'') ''a'' =
     Inr ((NFA [''a''])\<lparr>nfa_transitions := [State ''p'' \<mapsto> [(''a'', [State ''q''])]]\<rparr>) \<and>
   State ''q'' \<in> targets ((NFA [''a''])\<lparr>nfa_transitions := [State ''p'' \<mapsto> [(''a'', [State ''q''])]]\<rparr>)
      (State ''p'') ''a'' \<and>
   State ''q'' \<notin> set (get_states
      ((NFA [''a''])\<lparr>nfa_transitions := [State ''p'' \<mapsto> [(''a'', [State ''q''])]]\<rparr>))"
  by (simp add: nfa_add_transition_def NFA_def nfa_getitem_def set_add_def targets_def
      get_states_def)

section \<open>The prefix tree acceptor\<close>

lemma add_transition_in_alphabet:
  "a \<in> set (alphabet D) \<Longrightarrow>
   add_transition D q1 q2 a =
     Inr (D\<lparr>states := states D \<union> {q1, q2},
            transitions := (transitions D)
              (q1 \<mapsto> (case transitions D q1 of None \<Rightarrow> Map.empty | Some m \<Rightarrow> m)(a \<mapsto> q2))\<rparr>)"
  by (simp add: add_transition_def getitem_default_def Let_def split: option.splits)

lemma add_transition_lookup:
  assumes "a \<in> set (alphabet D)"
  shows "\<exists>D'. add_transition D q1 q2 a = Inr D' \<and> alphabet D' = alphabet D \<and>
           start_state D' = start_state D \<and> accept_states D' = accept_states D \<and>
           reject_states D' = reject_states D \<and>
           (\<forall>q b. lookup D' q b = (if q = q1 \<and> b = a then Some q2 else lookup D q b))"
  using assms by (simp add: add_transition_in_alphabet lookup_def split: option.splits)

lemma pta_letters_ok:
  "set ls \<subseteq> set (alphabet pta) \<Longrightarrow>
   \<exists>pta'. pta_letters pta ls = Inr pta' \<and> alphabet pta' = alphabet pta \<and>
      start_state pta' = start_state pta \<and> accept_states pta' = accept_states pta \<and>
      reject_states pta' = reject_states pta \<and>
      (\<forall>q b. lookup pta' q b =
         (if q = State [] \<and> b \<in> set ls then Some (State b) else lookup pta q b))"
proof (induction ls arbitrary: pta)
  case Nil
  then show ?case by simp
next
  case (Cons l ls)
  then have l: "l \<in> set (alphabet pta)" by simp
  from add_transition_lookup [OF l, of "State []" "State l"]
  obtain p1 where p1: "add_transition pta (State []) (State l) l = Inr p1"
    "alphabet p1 = alphabet pta" "start_state p1 = start_state pta"
    "accept_states p1 = accept_states pta" "reject_states p1 = reject_states pta"
    "\<And>q b. lookup p1 q b = (if q = State [] \<and> b = l then Some (State l) else lookup pta q b)"
    by blast
  from Cons.prems p1(2) have "set ls \<subseteq> set (alphabet p1)" by simp
  from Cons.IH [OF this]
  obtain p2 where p2: "pta_letters p1 ls = Inr p2"
    "alphabet p2 = alphabet p1" "start_state p2 = start_state p1"
    "accept_states p2 = accept_states p1" "reject_states p2 = reject_states p1"
    "\<And>q b. lookup p2 q b = (if q = State [] \<and> b \<in> set ls then Some (State b) else lookup p1 q b)"
    by blast
  show ?case
    using p1(1-5) p2(1-5) by (simp add: p2(6) p1(6))
qed

lemma pta_inner_ok:
  "set as \<subseteq> set (alphabet pta) \<Longrightarrow>
   \<exists>pta' ns'. pta_inner sts u as (pta, ns) = Inr (pta', ns') \<and> alphabet pta' = alphabet pta \<and>
      start_state pta' = start_state pta \<and> accept_states pta' = accept_states pta \<and>
      reject_states pta' = reject_states pta \<and>
      (\<forall>q b. lookup pta' q b =
         (if q = u \<and> b \<in> set as then Some (State (name u @ b)) else lookup pta q b)) \<and>
      set ns' = set ns \<union> {State (name u @ a) | a. a \<in> set as \<and> State (name u @ a) \<notin> set sts}"
proof (induction as arbitrary: pta ns)
  case Nil
  then show ?case by simp
next
  case (Cons a as)
  then have a: "a \<in> set (alphabet pta)" by simp
  let ?ua = "State (name u @ a)"
  let ?ns1 = "if ?ua \<notin> set sts then List.insert ?ua ns else ns"
  from add_transition_lookup [OF a, of u ?ua]
  obtain p1 where p1: "add_transition pta u ?ua a = Inr p1"
    "alphabet p1 = alphabet pta" "start_state p1 = start_state pta"
    "accept_states p1 = accept_states pta" "reject_states p1 = reject_states pta"
    "\<And>q b. lookup p1 q b = (if q = u \<and> b = a then Some ?ua else lookup pta q b)"
    by blast
  from Cons.prems p1(2) have "set as \<subseteq> set (alphabet p1)" by simp
  from Cons.IH [OF this, of ?ns1]
  obtain p2 ns2 where p2: "pta_inner sts u as (p1, ?ns1) = Inr (p2, ns2)"
    "alphabet p2 = alphabet p1" "start_state p2 = start_state p1"
    "accept_states p2 = accept_states p1" "reject_states p2 = reject_states p1"
    "\<And>q b. lookup p2 q b =
        (if q = u \<and> b \<in> set as then Some (State (name u @ b)) else lookup p1 q b)"
    "set ns2 = set ?ns1 \<union> {State (name u @ a) | a. a \<in> set as \<and> State (name u @ a) \<notin> set sts}"
    by blast
  have step: "pta_inner sts u (a # as) (pta, ns) = Inr (p2, ns2)"
    using p1(1) p2(1) by (simp add: Let_def)
  have ns: "set ns2 = set ns \<union>
      {State (name u @ b) | b. b \<in> set (a # as) \<and> State (name u @ b) \<notin> set sts}"
    unfolding p2(7) by auto
  show ?case
    using step p1(2-5) p2(2-5) ns by (simp add: p2(6) p1(6))
qed

lemma pta_outer_ok:
  "set sigma \<subseteq> set (alphabet pta) \<Longrightarrow>
   \<exists>pta' ns'. pta_outer sts sigma us (pta, ns) = Inr (pta', ns') \<and> alphabet pta' = alphabet pta \<and>
      start_state pta' = start_state pta \<and> accept_states pta' = accept_states pta \<and>
      reject_states pta' = reject_states pta \<and>
      (\<forall>q b. lookup pta' q b =
         (if q \<in> set us \<and> b \<in> set sigma then Some (State (name q @ b)) else lookup pta q b)) \<and>
      set ns' = set ns \<union>
        {State (name u @ a) | u a. u \<in> set us \<and> a \<in> set sigma \<and> State (name u @ a) \<notin> set sts}"
proof (induction us arbitrary: pta ns)
  case Nil
  then show ?case by simp
next
  case (Cons u us)
  from pta_inner_ok [OF Cons.prems, of sts u ns]
  obtain p1 ns1 where p1: "pta_inner sts u sigma (pta, ns) = Inr (p1, ns1)"
    "alphabet p1 = alphabet pta" "start_state p1 = start_state pta"
    "accept_states p1 = accept_states pta" "reject_states p1 = reject_states pta"
    "\<And>q b. lookup p1 q b =
        (if q = u \<and> b \<in> set sigma then Some (State (name u @ b)) else lookup pta q b)"
    "set ns1 = set ns \<union> {State (name u @ a) | a. a \<in> set sigma \<and> State (name u @ a) \<notin> set sts}"
    by blast
  from Cons.prems p1(2) have "set sigma \<subseteq> set (alphabet p1)" by simp
  from Cons.IH [OF this, of ns1]
  obtain p2 ns2 where p2: "pta_outer sts sigma us (p1, ns1) = Inr (p2, ns2)"
    "alphabet p2 = alphabet p1" "start_state p2 = start_state p1"
    "accept_states p2 = accept_states p1" "reject_states p2 = reject_states p1"
    "\<And>q b. lookup p2 q b =
        (if q \<in> set us \<and> b \<in> set sigma then Some (State (name q @ b)) else lookup p1 q b)"
    "set ns2 = set ns1 \<union>
        {State (name u @ a) | u a. u \<in> set us \<and> a \<in> set sigma \<and> State (name u @ a) \<notin> set sts}"
    by blast
  have step: "pta_outer sts sigma (u # us) (pta, ns) = Inr (p2, ns2)"
    using p1(1) p2(1) by simp
  have ns: "set ns2 = set ns \<union>
      {State (name v @ a) | v a. v \<in> set (u # us) \<and> a \<in> set sigma \<and> State (name v @ a) \<notin> set sts}"
    unfolding p2(7) p1(7) by auto
  show ?case
    using step p1(2-5) p2(2-5) ns by (simp add: p2(6) p1(6))
qed

lemma pta_mark_ok:
  "alphabet (pta_mark sp sm us pta) = alphabet pta \<and>
   start_state (pta_mark sp sm us pta) = start_state pta \<and>
   transitions (pta_mark sp sm us pta) = transitions pta \<and>
   accept_states (pta_mark sp sm us pta) = accept_states pta \<union> {u \<in> set us. name u \<in> set sp} \<and>
   reject_states (pta_mark sp sm us pta) = reject_states pta \<union> {u \<in> set us. name u \<in> set sm}"
  by (induction us arbitrary: pta) (auto simp: Let_def)


lemma set_determine_alphabet:
  "set (determine_alphabet (List.union s_plus s_minus)) = sample_letters s_plus s_minus"
  by (auto simp: determine_alphabet_def sample_letters_def)

lemma set_prefix_set:
  "set (prefix_set (List.union s_plus s_minus) sigma) = sample_prefixes s_plus s_minus"
  by (auto simp: prefix_set_def sample_prefixes_def)

lemma letters_need_sample:
  "a \<in> sample_letters s_plus s_minus \<Longrightarrow> [] \<in> sample_prefixes s_plus s_minus"
  by (auto simp: sample_letters_def sample_prefixes_def)

lemma samples_are_prefixes:
  "set s_plus \<union> set s_minus \<subseteq> sample_prefixes s_plus s_minus"
  by (auto simp: sample_prefixes_def)

lemma fringe_union:
  "State ` P \<union> {State (name u @ a) | u a. u \<in> State ` P \<and> a \<in> L \<and> State (name u @ a) \<notin> State ` P}
   = State ` P \<union> {State (u @ a) | u a. u \<in> P \<and> a \<in> L}"
proof (rule set_eqI)
  fix x
  show "x \<in> State ` P \<union> {State (name u @ a) | u a. u \<in> State ` P \<and> a \<in> L \<and> State (name u @ a) \<notin> State ` P}
    \<longleftrightarrow> x \<in> State ` P \<union> {State (u @ a) | u a. u \<in> P \<and> a \<in> L}"
  proof (cases "x \<in> State ` P")
    case True
    then show ?thesis by simp
  next
    case False
    have "(\<exists>u a. x = State (name u @ a) \<and> u \<in> State ` P \<and> a \<in> L) \<longleftrightarrow>
          (\<exists>u a. x = State (u @ a) \<and> u \<in> P \<and> a \<in> L)"
    proof
      assume "\<exists>u a. x = State (name u @ a) \<and> u \<in> State ` P \<and> a \<in> L"
      then obtain u a where "x = State (name u @ a)" "u \<in> State ` P" "a \<in> L" by blast
      then have "x = State (name u @ a) \<and> name u \<in> P \<and> a \<in> L" by auto
      then show "\<exists>u a. x = State (u @ a) \<and> u \<in> P \<and> a \<in> L" by blast
    next
      assume "\<exists>u a. x = State (u @ a) \<and> u \<in> P \<and> a \<in> L"
      then obtain u a where "x = State (u @ a)" "u \<in> P" "a \<in> L" by blast
      then have "x = State (name (State u) @ a) \<and> State u \<in> State ` P \<and> a \<in> L" by simp
      then show "\<exists>u a. x = State (name u @ a) \<and> u \<in> State ` P \<and> a \<in> L" by blast
    qed
    with False show ?thesis by auto
  qed
qed

text \<open>
  Claim C6, as the code has it. For all example lists, \<open>build_pta\<close> raises nothing and
  returns an automaton with start state \<open>State('')\<close> over the letters of the examples.
  Its states are the prefixes of the examples together with every one-letter extension
  \<open>ua\<close> of a prefix \<open>u\<close>; its transition table has \<open>\<delta>(u, a) = ua\<close> for every
  prefix \<open>u\<close> and letter \<open>a\<close> and no other entry; its accept states are the positive
  and its reject states the negative examples.
\<close>

theorem build_pta_fringe:
  "\<exists>pta. build_pta s_plus s_minus = Inr pta \<and> start_state pta = State [] \<and>
     set (alphabet pta) = sample_letters s_plus s_minus \<and>
     states pta = State ` sample_prefixes s_plus s_minus \<union>
       {State (u @ a) | u a. u \<in> sample_prefixes s_plus s_minus \<and> a \<in> sample_letters s_plus s_minus} \<and>
     (\<forall>q a. lookup pta q a =
        (if name q \<in> sample_prefixes s_plus s_minus \<and> a \<in> sample_letters s_plus s_minus
         then Some (State (name q @ a)) else None)) \<and>
     accept_states pta = State ` set s_plus \<and> reject_states pta = State ` set s_minus"
proof -
  define samples where "samples = List.union s_plus s_minus"
  define sigma where "sigma = determine_alphabet samples"
  define sts where "sts = map State (prefix_set samples sigma)"
  define P where "P = sample_prefixes s_plus s_minus"
  define L where "L = sample_letters s_plus s_minus"
  let ?p0 = "Automaton sigma (State [])"
  have sig: "set sigma = L"
    unfolding sigma_def samples_def L_def by (rule set_determine_alphabet)
  have sts: "set sts = State ` P"
    unfolding sts_def samples_def P_def by (simp add: set_prefix_set)
  have a0: "alphabet ?p0 = sigma" by (simp add: Automaton_def)
  then have "set sigma \<subseteq> set (alphabet ?p0)" by simp
  from pta_letters_ok [OF this]
  obtain p1 where p1: "pta_letters ?p0 sigma = Inr p1"
    "alphabet p1 = alphabet ?p0" "start_state p1 = start_state ?p0"
    "accept_states p1 = accept_states ?p0" "reject_states p1 = reject_states ?p0"
    "\<And>q b. lookup p1 q b =
        (if q = State [] \<and> b \<in> set sigma then Some (State b) else lookup ?p0 q b)"
    by blast
  from p1(2) a0 have "set sigma \<subseteq> set (alphabet p1)" by simp
  from pta_outer_ok [OF this, of sts sts "[]"]
  obtain p2 ns where p2: "pta_outer sts sigma sts (p1, []) = Inr (p2, ns)"
    "alphabet p2 = alphabet p1" "start_state p2 = start_state p1"
    "accept_states p2 = accept_states p1" "reject_states p2 = reject_states p1"
    "\<And>q b. lookup p2 q b =
        (if q \<in> set sts \<and> b \<in> set sigma then Some (State (name q @ b)) else lookup p1 q b)"
    "set ns = set [] \<union>
        {State (name u @ a) | u a. u \<in> set sts \<and> a \<in> set sigma \<and> State (name u @ a) \<notin> set sts}"
    by blast
  let ?sts1 = "List.union sts ns"
  let ?p3 = "pta_mark s_plus s_minus ?sts1 p2"
  let ?pta = "?p3\<lparr>states := set ?sts1\<rparr>"
  have res: "build_pta s_plus s_minus = Inr ?pta"
    using p1(1) p2(1)
    by (simp add: build_pta_def Let_def samples_def [symmetric] sigma_def [symmetric]
        sts_def [symmetric])
  note m = pta_mark_ok [of s_plus s_minus ?sts1 p2]
  have start: "start_state ?pta = State []"
    using m p2(3) p1(3) by (simp add: Automaton_def)
  have alph: "set (alphabet ?pta) = L"
    using m p2(2) p1(2) a0 sig by simp
  have st: "states ?pta = State ` P \<union> {State (u @ a) | u a. u \<in> P \<and> a \<in> L}"
  proof -
    have "set ?sts1 = set sts \<union> set ns" by simp
    also have "\<dots> = State ` P \<union> {State (u @ a) | u a. u \<in> P \<and> a \<in> L}"
      unfolding p2(7) sts sig using fringe_union [of P L] by simp
    finally show ?thesis by simp
  qed
  have p0: "lookup ?p0 q b = None" for q b
    by (simp add: lookup_def Automaton_def)
  have lk: "lookup ?pta q b = (if name q \<in> P \<and> b \<in> L then Some (State (name q @ b)) else None)"
    for q b
  proof -
    have "lookup ?pta q b = lookup p2 q b"
      using m by (simp add: lookup_def)
    also have "\<dots> = (if q \<in> State ` P \<and> b \<in> L then Some (State (name q @ b))
        else if q = State [] \<and> b \<in> L then Some (State b) else None)"
      using p0 by (simp add: p2(6) p1(6) sts sig)
    also have "\<dots> = (if name q \<in> P \<and> b \<in> L then Some (State (name q @ b)) else None)"
    proof (cases "b \<in> L")
      case True
      then have "[] \<in> P" unfolding L_def P_def by (rule letters_need_sample)
      moreover have "q \<in> State ` P \<longleftrightarrow> name q \<in> P" by (cases q) auto
      ultimately show ?thesis using True by auto
    next
      case False
      then show ?thesis by simp
    qed
    finally show ?thesis .
  qed
  have sub: "State ` (set s_plus \<union> set s_minus) \<subseteq> set ?sts1"
    using samples_are_prefixes [of s_plus s_minus] sts unfolding P_def by auto
  have acc: "accept_states ?pta = State ` set s_plus"
  proof -
    have "accept_states ?pta = {u \<in> set ?sts1. name u \<in> set s_plus}"
      using m p2(4) p1(4) by (simp add: Automaton_def)
    also have "\<dots> = State ` set s_plus"
      using sub by force
    finally show ?thesis .
  qed
  have rej: "reject_states ?pta = State ` set s_minus"
  proof -
    have "reject_states ?pta = {u \<in> set ?sts1. name u \<in> set s_minus}"
      using m p2(5) p1(5) by (simp add: Automaton_def)
    also have "\<dots> = State ` set s_minus"
      using sub by force
    finally show ?thesis .
  qed
  from res start alph st lk acc rej show ?thesis
    unfolding P_def L_def by blast
qed

text \<open>
  Claim C6 as stated fails: for the one positive example \<open>a\<close> the state \<open>aa\<close> is
  in the state set and is no prefix of an example, and \<open>\<delta>(aa, a)\<close> is undefined.
\<close>

theorem build_pta_states_counterexample:
  "build_pta [''a''] [] = Inr pta_a \<and> State ''aa'' \<in> states pta_a \<and>
   ''aa'' \<notin> sample_prefixes [''a''] [] \<and> lookup pta_a (State ''aa'') ''a'' = None"
proof (intro conjI)
  show "build_pta [''a''] [] = Inr pta_a"
    by (auto simp: build_pta_def determine_alphabet_def prefix_set_def List.union_def
        List.insert_def Automaton_def add_transition_def getitem_default_def Let_def pta_a_def)
  show "State ''aa'' \<in> states pta_a"
    by (simp add: pta_a_def)
  show "''aa'' \<notin> sample_prefixes [''a''] []"
    by (simp add: sample_prefixes_def)
  show "lookup pta_a (State ''aa'') ''a'' = None"
    by (simp add: lookup_def pta_a_def)
qed

section \<open>Where the code departs from the specification\<close>

subsection \<open>minimize searches from the state with the empty label\<close>

text \<open>
  Claim C2 fails on the code. \<open>minimize\<close> builds \<open>Automaton(self._alphabet)\<close> and
  searches from \<open>State('')\<close>, not from the start state of the automaton. The automaton
  \<open>dfa_named_start\<close>, whose start state is \<open>q0\<close>, accepts the string \<open>a\<close>; its
  minimization returns, and what it returns is the new automaton with the single state
  \<open>State('')\<close> and no transition, which rejects \<open>a\<close>.
\<close>

theorem minimize_ignores_start_state:
  "fst (parse_string dfa_named_start ''a'') = Inr (State ''q1'', True) \<and>
   minimize dfa_named_start = Some (Inr (Automaton [''a''] (State []))) \<and>
   fst (parse_string (Automaton [''a''] (State [])) ''a'') = Inr (State [], False)"
proof (intro conjI)
  show "fst (parse_string dfa_named_start ''a'') = Inr (State ''q1'', True)"
    by (simp add: parse_string_def parse_from.simps transition_exists_def transition_def
        getitem_default_def dfa_named_start_def)
  show "minimize dfa_named_start = Some (Inr (Automaton [''a''] (State [])))"
    by (simp add: minimize_def minimize_while.simps dfa_named_start_def Automaton_def Let_def)
  show "fst (parse_string (Automaton [''a''] (State [])) ''a'') = Inr (State [], False)"
    by (simp add: parse_string_def parse_from.simps transition_exists_def Automaton_def)
qed

subsection \<open>The \<open>\<epsilon>\<close>-closure raises on a state with no \<open>\<epsilon>\<close>-transition\<close>

text \<open>
  \<open>_epsilon_closure\<close> reads \<open>nfa.transition(state, '')\<close> for every state it pops,
  and that read raises \<open>KeyError\<close> when the state has no entry for the empty symbol.
\<close>

lemma epsilon_closure_missing_entry:
  "map_of (nfa_getitem N q) [] = None \<Longrightarrow> epsilon_closure N q = Some (Inl KeyError)"
  by (simp add: epsilon_closure_def closure_while.simps nfa_transition_def)

text \<open>
  Claim C8 fails on the code. In \<open>nfa_a_star\<close> the state \<open>q0\<close> has no
  \<open>\<epsilon>\<close>-transition, so the states reachable from it by \<open>\<epsilon>\<close>-transitions are
  \<open>q0\<close> alone; \<open>_epsilon_closure\<close> raises \<open>KeyError\<close> instead of returning that
  set.
\<close>

theorem epsilon_closure_raises:
  "epsilon_closure nfa_a_star (State ''q0'') = Some (Inl KeyError) \<and>
   eps_reachable nfa_a_star (State ''q0'') = {State ''q0''}"
proof
  show "epsilon_closure nfa_a_star (State ''q0'') = Some (Inl KeyError)"
    by (simp add: epsilon_closure_def closure_while.simps nfa_transition_def nfa_getitem_def
        nfa_a_star_def)
  have "{(p, p'). p' \<in> targets nfa_a_star p []} = {}"
    by (auto simp: targets_def nfa_getitem_def nfa_a_star_def split: option.splits if_splits)
  then show "eps_reachable nfa_a_star (State ''q0'') = {State ''q0''}"
    by (simp add: eps_reachable_def)
qed

subsection \<open>to_dfa raises on every NFA with a letter\<close>

text \<open>
  The first subset \<open>_power_set\<close> yields is the empty tuple, and the first statement of
  the loop over the alphabet is \<open>transitions[r][a] = set()\<close> on the empty dictionary
  \<open>transitions\<close>. So \<open>to_dfa\<close> returns no automaton on an NFA whose alphabet is not
  empty: it raises there, unless it has raised or failed to end before.
\<close>

lemma power_set_first: "\<exists>rest. power_set q = [] # rest"
  by (simp add: power_set_def upt_rec [of 0])

lemma subset_loop_raises:
  "nfa_alphabet cpy \<noteq> [] \<Longrightarrow> subset_loop cpy ([], []) ([] # rest) = Some (Inl KeyError)"
  by (cases "nfa_alphabet cpy") (simp_all add: subset_init_def)

lemma nfa_add_transition_alphabet:
  "nfa_add_transition N q1 q2 a = Inr N' \<Longrightarrow> nfa_alphabet N' = nfa_alphabet N"
  by (auto simp: nfa_add_transition_def Let_def split: if_splits option.splits)

lemma link_starts_alphabet:
  "link_starts cpy new_q qs = Inr cpy' \<Longrightarrow> nfa_alphabet cpy' = nfa_alphabet cpy"
  by (induction qs arbitrary: cpy) (auto split: sum.splits dest: nfa_add_transition_alphabet)

lemma to_dfa_never_returns:
  assumes "nfa_alphabet N \<noteq> []"
  shows "to_dfa N \<noteq> Some (Inr D)"
proof
  assume r: "to_dfa N = Some (Inr D)"
  define c where "c = (if length (nfa_start_states N) > 1
            then (case link_starts (N\<lparr>nfa_states := set_add (State ''__q0__'') (nfa_states N)\<rparr>)
                         (State ''__q0__'') (nfa_start_states N) of
                    Inl e \<Rightarrow> Inl e
                  | Inr cpy1 \<Rightarrow> Inr (cpy1\<lparr>nfa_start_states := [State ''__q0__'']\<rparr>))
            else Inr N)"
  from r obtain cpy where cpy: "c = Inr cpy"
    unfolding to_dfa_def c_def [symmetric] by (cases c) auto
  have "nfa_alphabet cpy = nfa_alphabet N"
    using cpy unfolding c_def
    by (auto split: if_splits sum.splits dest: link_starts_alphabet)
  with assms have ne: "nfa_alphabet cpy \<noteq> []" by simp
  obtain rest where ps: "power_set (nfa_states N) = [] # rest"
    using power_set_first by blast
  from r cpy show False
    unfolding to_dfa_def c_def [symmetric]
    by (simp add: ps subset_loop_raises [OF ne] del: subset_loop.simps
        split: list.splits option.splits sum.splits)
qed

text \<open>
  Claim C1 fails on the code. The NFA \<open>nfa_a_star\<close> accepts the string \<open>a\<close>, and
  \<open>to_dfa\<close> raises \<open>KeyError\<close> on it, so there is no automaton whose parse could
  agree.
\<close>

theorem to_dfa_raises:
  "nfa_parse_string nfa_a_star ''a'' = Some (Inr (State ''q0'', True)) \<and>
   to_dfa nfa_a_star = Some (Inl KeyError)"
proof
  show "nfa_parse_string nfa_a_star ''a'' = Some (Inr (State ''q0'', True))"
    by (simp add: nfa_parse_string_def parse_while.simps nfa_getitem_def nfa_a_star_def)
  show "to_dfa nfa_a_star = Some (Inl KeyError)"
    by (simp add: to_dfa_def epsilon_closure_def closure_while.simps nfa_transition_def
        nfa_getitem_def nfa_a_star_def)
qed

subsection \<open>parse_string of the NFA and \<open>\<epsilon>\<close>-transitions\<close>

text \<open>
  Claim C3 fails on the code. When the popped index is the length of the string and the
  state is not accepting, the search drops the pair without following the
  \<open>\<epsilon>\<close>-transitions of the state. In \<open>nfa_eps_example\<close> the run from \<open>q0\<close>
  through the \<open>\<epsilon>\<close>-transition to the accept state \<open>q1\<close> consumes the empty string,
  and \<open>parse_string\<close> returns \<open>(q0, False)\<close> on the empty string.
\<close>

theorem nfa_parse_misses_trailing_epsilon:
  "nfa_parse_string nfa_eps_example [] = Some (Inr (State ''q0'', False)) \<and>
   accepting_run nfa_eps_example []"
proof
  show "nfa_parse_string nfa_eps_example [] = Some (Inr (State ''q0'', False))"
    by (simp add: nfa_parse_string_def parse_while.simps nfa_getitem_def nfa_eps_example_def)
  have "State ''q1'' \<in> targets nfa_eps_example (State ''q0'') []"
    by (simp add: targets_def nfa_getitem_def nfa_eps_example_def)
  then have "nfa_run nfa_eps_example (State ''q0'') [] (State ''q1'')"
    by (rule run_eps) (rule run_done)
  then show "accepting_run nfa_eps_example []"
    unfolding accepting_run_def
    by (intro exI [of _ "State ''q0''"] exI [of _ "State ''q1''"]) (simp add: nfa_eps_example_def)
qed


text \<open>
  A cycle of \<open>\<epsilon>\<close>-transitions is pushed again each time it is popped. On
  \<open>nfa_eps_loop\<close> no run consumes the string \<open>a\<close>, and \<open>parse_string\<close> does not
  return on it.
\<close>

lemma parse_while_eps_loop:
  assumes "parse_while N s stack = Some r"
    and "N = nfa_eps_loop \<and> s = ''a'' \<and> stack = [(State ''q0'', 0)]"
  shows False
  using assms
proof (induction rule: parse_while_induct)
  case (step parse_while N s stack r)
  from step.hyps step.prems
  have "parse_while nfa_eps_loop ''a'' [(State ''q0'', 0)] = Some r"
    by (simp add: nfa_getitem_def nfa_eps_loop_def)
  from step.IH [OF this] show ?case by simp
qed

lemma nfa_parse_string_diverges:
  "nfa_parse_string nfa_eps_loop ''a'' = None \<and> \<not> accepting_run nfa_eps_loop ''a''"
proof
  have "parse_while nfa_eps_loop ''a'' [(State ''q0'', 0)] = None"
    using parse_while_eps_loop by (cases "parse_while nfa_eps_loop ''a'' [(State ''q0'', 0)]") auto
  then show "nfa_parse_string nfa_eps_loop ''a'' = None"
    by (simp add: nfa_parse_string_def nfa_eps_loop_def)
  have "nfa_run nfa_eps_loop q s r \<Longrightarrow> s = ''a'' \<Longrightarrow> False" for q s r
    by (induction rule: nfa_run.induct)
      (auto simp: targets_def nfa_getitem_def nfa_eps_loop_def split: if_splits option.splits)
  then show "\<not> accepting_run nfa_eps_loop ''a''"
    by (auto simp: accepting_run_def)
qed


end
